theory Spec2Isabelle
  imports Complex_Main
begin

section \<open>What the sources leave to the platform\<close>

text \<open>
  \<^verbatim>\<open>hctree.c\<close> sits on top of a B-tree (\<^verbatim>\<open>bt_create\<close>, \<^verbatim>\<open>bt_insert\<close>, \<^verbatim>\<open>bt_search\<close>,
  \<^verbatim>\<open>bt_range_search\<close>, \<^verbatim>\<open>bt_count_keys\<close>) whose implementation and header are not part of
  the sources at hand. Keys are 64-bit signed integers (the code prints them with
  \<^verbatim>\<open>PRId64\<close>); they are only compared, so they are modelled as \<open>int\<close>. A payload is a
  pointer, compared against \<^verbatim>\<open>NULL\<close> only; it is modelled as an address, \<open>0\<close> being
  \<^verbatim>\<open>NULL\<close>.
\<close>

type_synonym BTKey = int
type_synonym BTPayload = nat

definition NULL :: BTPayload where
  "NULL = 0"

text \<open>
  Modelled from the spec: the B-tree itself (its node layout, splitting and traversal are
  missing). The spec's contract for it is an ordered key-to-payload store with upsert
  insertion, point lookup, ascending range iteration and key counting. The store is kept
  as a list of entries in strictly ascending key order.
\<close>

type_synonym BTree = "(BTKey \<times> BTPayload) list"

text \<open>
  Two things are fixed by the platform and not by \<^verbatim>\<open>hctree.c\<close>, and are parameters of
  the model.

  The arithmetic of \<^verbatim>\<open>double\<close>: a value of type \<^verbatim>\<open>double\<close> is the real number it
  denotes, and every operation, every conversion from an integer and every decimal literal
  gives the exact result rounded by \<open>fl\<close>. For IEEE binary64 \<open>fl\<close> is rounding to nearest;
  the theorems say which properties of \<open>fl\<close> they use. Infinities and NaN are not
  modelled: no value here leaves the finite range as long as \<open>decay_alpha \<le> 1\<close>.

  Modelled from the spec: the number of nodes an operation of the B-tree visits, which
  depends on the missing node structure: any function of the tree and the arguments of the
  operation.
\<close>

record platform =
  fl :: "real \<Rightarrow> real"
  search_visits :: "BTree \<Rightarrow> BTKey \<Rightarrow> nat"
  range_visits :: "BTree \<Rightarrow> BTKey \<Rightarrow> BTKey \<Rightarrow> nat"

text \<open>The operations of \<^verbatim>\<open>double\<close>: sum, difference, product, quotient.\<close>

definition dadd :: "platform \<Rightarrow> real \<Rightarrow> real \<Rightarrow> real" where
  "dadd m x y = fl m (x + y)"

definition dsub :: "platform \<Rightarrow> real \<Rightarrow> real \<Rightarrow> real" where
  "dsub m x y = fl m (x - y)"

definition dmul :: "platform \<Rightarrow> real \<Rightarrow> real \<Rightarrow> real" where
  "dmul m x y = fl m (x * y)"

definition ddiv :: "platform \<Rightarrow> real \<Rightarrow> real \<Rightarrow> real" where
  "ddiv m x y = fl m (x / y)"

text \<open>
  The cast \<^verbatim>\<open>(double)n\<close> of an integer, and a decimal literal such as \<^verbatim>\<open>0.05\<close>. The
  literals \<^verbatim>\<open>0.0\<close>, \<^verbatim>\<open>1.0\<close> and \<^verbatim>\<open>-1.0\<close> are exact in every binary format and are
  written \<open>0\<close>, \<open>1\<close> and \<open>- 1\<close>.
\<close>

definition dcast :: "platform \<Rightarrow> int \<Rightarrow> real" where
  "dcast m n = fl m (real_of_int n)"

definition dlit :: "platform \<Rightarrow> real \<Rightarrow> real" where
  "dlit m c = fl m c"

text \<open>
  A read through a pointer that is \<^verbatim>\<open>NULL\<close> ends the process. It is the one fault the
  file can run into: neither \<^verbatim>\<open>calloc\<close> of the file is checked.
\<close>

datatype fault = NullDeref

text \<open>
  \<^verbatim>\<open>calloc(n, size)\<close>: \<open>n\<close> zeroed cells, or \<^verbatim>\<open>NULL\<close> when the product \<open>n \<times> size\<close> does
  not fit \<^verbatim>\<open>size_t\<close> or the library does not grant the memory. Whether it grants is an
  input, \<open>granted\<close>, of every call that allocates. An array is the list of the cells that
  may be read; a \<^verbatim>\<open>NULL\<close> array is the empty list.
\<close>

definition calloc :: "bool \<Rightarrow> nat \<Rightarrow> nat \<Rightarrow> 'a::zero list" where
  "calloc granted n sz = (if granted \<and> n * sz < 2 ^ 64 then replicate n 0 else [])"

section \<open>The ordered index service\<close>

text \<open>Modelled from the spec: \<^verbatim>\<open>create(branching_factor)\<close> gives an empty index.\<close>

definition bt_create :: "int \<Rightarrow> BTree" where
  "bt_create degree = []"

text \<open>Modelled from the spec: \<^verbatim>\<open>insert(Index, key, payload)\<close>, upsert semantics.\<close>

fun bt_insert :: "BTree \<Rightarrow> BTKey \<Rightarrow> BTPayload \<Rightarrow> BTree" where
  "bt_insert [] k v = [(k, v)]"
| "bt_insert ((k', v') # t) k v =
     (if k < k' then (k, v) # (k', v') # t
      else if k = k' then (k, v) # t
      else (k', v') # bt_insert t k v)"

text \<open>
  Modelled from the spec: \<^verbatim>\<open>search(Index, key)\<close> gives the payload or absent, and a
  visit count. In C the result is a \<^verbatim>\<open>BTPayload\<close>, absent being \<^verbatim>\<open>NULL\<close>, and the
  visit count is written to a \<^verbatim>\<open>BTStats\<close> that the caller zeroed.
\<close>

definition bt_search :: "platform \<Rightarrow> BTree \<Rightarrow> BTKey \<Rightarrow> BTPayload \<times> nat" where
  "bt_search m t k =
     ((case map_of t k of None \<Rightarrow> NULL | Some v \<Rightarrow> v), search_visits m t k)"

text \<open>
  Modelled from the spec: \<^verbatim>\<open>range_search(Index, lo, hi, callback)\<close> invokes the callback
  once per key in \<open>[lo, hi]\<close>, in ascending key order, and reports a visit count. The
  callback's argument (\<^verbatim>\<open>void *arg\<close>) is the state the callback threads. A callback that
  faults ends the scan, and the process.
\<close>

fun bt_scan :: "(BTKey \<Rightarrow> BTPayload \<Rightarrow> 'c \<Rightarrow> fault + 'c) \<Rightarrow> BTree \<Rightarrow> 'c \<Rightarrow> fault + 'c" where
  "bt_scan cb [] arg = Inr arg"
| "bt_scan cb ((k, v) # t) arg =
     (case cb k v arg of Inl f \<Rightarrow> Inl f | Inr arg' \<Rightarrow> bt_scan cb t arg')"

definition bt_range_search ::
  "platform \<Rightarrow> BTree \<Rightarrow> BTKey \<Rightarrow> BTKey \<Rightarrow> (BTKey \<Rightarrow> BTPayload \<Rightarrow> 'c \<Rightarrow> fault + 'c) \<Rightarrow> 'c
     \<Rightarrow> (fault + 'c) \<times> nat" where
  "bt_range_search m t lo hi cb arg =
     (bt_scan cb (filter (\<lambda>(k, v). lo \<le> k \<and> k \<le> hi) t) arg, range_visits m t lo hi)"

text \<open>Modelled from the spec: \<^verbatim>\<open>count_keys(Index)\<close>.\<close>

definition bt_count_keys :: "BTree \<Rightarrow> nat" where
  "bt_count_keys t = length t"

text \<open>The keys present in an index, and the order its entries are kept in.\<close>

definition bt_keys :: "BTree \<Rightarrow> BTKey set" where
  "bt_keys t = fst ` set t"

definition bt_sorted :: "BTree \<Rightarrow> bool" where
  "bt_sorted t = sorted_wrt (<) (map fst t)"

section \<open>The tiered index of \<^verbatim>\<open>hctree.c\<close>\<close>

text \<open>
  The structs \<^verbatim>\<open>HCParams\<close>, \<^verbatim>\<open>HCStats\<close> and \<^verbatim>\<open>HCIndex\<close> are declared in the missing
  header; their fields are the ones \<^verbatim>\<open>hctree.c\<close> reads and writes. Counters are
  integers that only grow by small steps; their overflow is out of reach and not modelled.
\<close>

record HCParams =
  adapt_sampling :: bool
  sampling_rate :: real
  decay_alpha :: real
  hot_threshold :: real
  max_hot_fraction :: real
  inclusive :: bool

record HCStats =
  queries :: int
  hot_hits :: int
  cold_hits :: int
  not_found :: int
  hot_node_visits :: int
  cold_node_visits :: int
  hot_keys :: int
  cold_keys :: int
  final_sampling_rate :: real

record HCIndex =
  hot :: BTree
  cold :: BTree
  max_key :: int
  hit_score :: "real list"
  params :: HCParams
  stats :: HCStats
  last_q_for_adapt :: int
  last_cost :: real
  last_D :: real

text \<open>The cast \<^verbatim>\<open>(size_t)(max_key + 1)\<close> of a 64-bit signed value.\<close>

definition size_t_of :: "int \<Rightarrow> nat" where
  "size_t_of n = nat (n mod 2 ^ 64)"

text \<open>\<^verbatim>\<open>memset(&idx->stats, 0, sizeof(HCStats))\<close>.\<close>

definition zero_stats :: HCStats where
  "zero_stats = \<lparr>queries = 0, hot_hits = 0, cold_hits = 0, not_found = 0,
     hot_node_visits = 0, cold_node_visits = 0, hot_keys = 0, cold_keys = 0,
     final_sampling_rate = 0\<rparr>"

text \<open>
  \<^verbatim>\<open>hc_create\<close>, for a \<^verbatim>\<open>malloc\<close> of the index that gave a block (without one there is no
  index to speak of). The score array is \<^verbatim>\<open>calloc(max_key + 1, sizeof(double))\<close>, eight
  bytes a cell, unchecked.
\<close>

definition hc_create :: "bool \<Rightarrow> int \<Rightarrow> int \<Rightarrow> HCParams \<Rightarrow> HCIndex" where
  "hc_create granted mk btree_degree p =
     \<lparr>hot = bt_create btree_degree,
      cold = bt_create btree_degree,
      max_key = mk,
      hit_score = calloc granted (size_t_of (mk + 1)) 8,
      params = p,
      stats = zero_stats,
      last_q_for_adapt = 0,
      last_cost = 0,
      last_D = sampling_rate p\<rparr>"

text \<open>
  \<^verbatim>\<open>hc_insert\<close> writes one line to \<^verbatim>\<open>stderr\<close> for a key out of range; the line carries
  the key and \<^verbatim>\<open>max_key\<close>. It is the only report the file makes.
\<close>

datatype hc_report = OutOfRange BTKey BTKey

definition hc_insert :: "HCIndex \<Rightarrow> BTKey \<Rightarrow> BTPayload \<Rightarrow> hc_report option \<times> HCIndex" where
  "hc_insert idx k v =
     (if k < 0 \<or> k > max_key idx then (Some (OutOfRange k (max_key idx)), idx)
      else (None, idx\<lparr>cold := bt_insert (cold idx) k v\<rparr>))"

definition MIN_DELTA_Q :: int where
  "MIN_DELTA_Q = 5000"

definition hc_maybe_adapt_sampling :: "platform \<Rightarrow> HCIndex \<Rightarrow> HCIndex" where
  "hc_maybe_adapt_sampling m idx =
     (if \<not> adapt_sampling (params idx) then idx
      else
        let q = queries (stats idx) in
        if q - last_q_for_adapt idx < MIN_DELTA_Q then idx
        else
          let total_nodes = dadd m (dcast m (hot_node_visits (stats idx)))
                                   (dcast m (cold_node_visits (stats idx)));
              cost = (if q > 0 then ddiv m total_nodes (dcast m q) else 0);
              D = sampling_rate (params idx);
              D1 =
                (if last_q_for_adapt idx = 0 then
                   (let hot_frac = ddiv m (dcast m (hot_hits (stats idx)))
                                          (dcast m (if q \<noteq> 0 then q else 1));
                        target_hot = dlit m 0.6
                    in if hot_frac < target_hot then dadd m D (dlit m 0.05)
                       else dsub m D (dlit m 0.05))
                 else
                   (let dC = dsub m cost (last_cost idx);
                        dD = dsub m D (last_D idx)
                    in if \<bar>dD\<bar> < dlit m (1 / 10 ^ 9) then
                         (let hot_frac = ddiv m (dcast m (hot_hits (stats idx)))
                                                (dcast m (if q \<noteq> 0 then q else 1));
                              target_hot = dlit m 0.6
                          in if hot_frac < target_hot then dadd m D (dlit m 0.05)
                             else dsub m D (dlit m 0.05))
                       else if dmul m dC dD < 0
                         then dadd m D (dmul m (dlit m 0.05) (if dD > 0 then 1 else - 1))
                       else if dmul m dC dD > 0
                         then dsub m D (dmul m (dlit m 0.05) (if dD > 0 then 1 else - 1))
                       else D));
              D2 = (if D1 < 0 then 0 else D1);
              D3 = (if D2 > 1 then 1 else D2)
          in idx\<lparr>last_D := sampling_rate (params idx),
                 last_cost := cost,
                 last_q_for_adapt := q,
                 params := (params idx)\<lparr>sampling_rate := D3\<rparr>\<rparr>)"

text \<open>
  \<^verbatim>\<open>RAND_MAX\<close> of the C library (the value of glibc). \<^verbatim>\<open>rand()\<close> reads a hidden global
  generator; the model takes the value it returns, \<open>r\<close> with \<open>r \<le> RAND_MAX\<close>, as an
  argument of every call that may draw.
\<close>

definition RAND_MAX :: nat where
  "RAND_MAX = 2147483647"

definition maybe_promote :: "platform \<Rightarrow> HCIndex \<Rightarrow> BTKey \<Rightarrow> nat \<Rightarrow> HCIndex" where
  "maybe_promote m idx k r =
     (if \<not> inclusive (params idx) then idx
      else
        let D0 = sampling_rate (params idx);
            D1 = (if D0 < 0 then 0 else D0);
            D = (if D1 > 1 then 1 else D1);
            u = ddiv m (dcast m (int r)) (dadd m (dcast m (int RAND_MAX)) 1)
        in if u > D then idx
        else
          let total_keys = size_t_of (max_key idx + 1);
              hot_keys = bt_count_keys (hot idx);
              max_hot = dmul m (max_hot_fraction (params idx)) (dcast m (int total_keys))
          in if dcast m (int hot_keys) \<ge> max_hot then idx
          else
            let (existing, s) = bt_search m (hot idx) k
            in if existing \<noteq> NULL then idx
            else
              let (v, s2) = bt_search m (cold idx) k
              in if v = NULL then idx
              else idx\<lparr>hot := bt_insert (hot idx) k v\<rparr>)"

text \<open>
  \<^verbatim>\<open>hc_search\<close> returns the payload, \<^verbatim>\<open>NULL\<close> for not found. It reads and writes
  \<^verbatim>\<open>idx->hit_score[k]\<close> without a check of the array: with an array that is \<^verbatim>\<open>NULL\<close> the
  read faults, and the index is left as it is at that moment.
\<close>

definition hc_search ::
  "platform \<Rightarrow> HCIndex \<Rightarrow> BTKey \<Rightarrow> nat \<Rightarrow> (fault + BTPayload) \<times> HCIndex" where
  "hc_search m idx0 k r =
     (let idx1 = idx0\<lparr>stats := (stats idx0)\<lparr>queries := queries (stats idx0) + 1\<rparr>\<rparr>;
          idx2 = hc_maybe_adapt_sampling m idx1;
          (v, hot_s) = bt_search m (hot idx2) k;
          idx3 = idx2\<lparr>stats := (stats idx2)
                   \<lparr>hot_node_visits := hot_node_visits (stats idx2) + int hot_s\<rparr>\<rparr>
      in if v \<noteq> NULL then
           (let idx4 = idx3\<lparr>stats := (stats idx3)\<lparr>hot_hits := hot_hits (stats idx3) + 1\<rparr>\<rparr>
            in if k \<ge> 0 \<and> k \<le> max_key idx4 then
                 (if nat k < length (hit_score idx4) then
                    (let old = hit_score idx4 ! nat k
                     in (Inr v, idx4\<lparr>hit_score := (hit_score idx4)
                           [nat k := dadd m (dmul m (decay_alpha (params idx4)) old) 1]\<rparr>))
                  else (Inl NullDeref, idx4))
               else (Inr v, idx4))
         else
           (let (v', cold_s) = bt_search m (cold idx3) k;
                idx4 = idx3\<lparr>stats := (stats idx3)
                         \<lparr>cold_node_visits := cold_node_visits (stats idx3) + int cold_s\<rparr>\<rparr>
            in if v' \<noteq> NULL then
                 (let idx5 = idx4\<lparr>stats := (stats idx4)
                                \<lparr>cold_hits := cold_hits (stats idx4) + 1\<rparr>\<rparr>
                  in if k \<ge> 0 \<and> k \<le> max_key idx5 then
                       (if nat k < length (hit_score idx5) then
                          (let old = hit_score idx5 ! nat k;
                               new_score = dadd m (dmul m (decay_alpha (params idx5)) old) 1;
                               idx6 = idx5\<lparr>hit_score := (hit_score idx5)[nat k := new_score]\<rparr>
                           in if new_score \<ge> hot_threshold (params idx6)
                              then (Inr v', maybe_promote m idx6 k r)
                              else (Inr v', idx6))
                        else (Inl NullDeref, idx5))
                     else (Inr v', idx5))
               else
                 (Inr NULL, idx4\<lparr>stats := (stats idx4)
                                \<lparr>not_found := not_found (stats idx4) + 1\<rparr>\<rparr>)))"

text \<open>
  The context of a range scan. \<^verbatim>\<open>user_cb\<close> and \<^verbatim>\<open>user_arg\<close> are the caller's callback
  and its argument: the model records the calls made to it, in order. \<^verbatim>\<open>seen\<close> is the
  array of \<^verbatim>\<open>max_key + 1\<close> marks, read by both callbacks without a check.
\<close>

record HCRangeCtx =
  user_calls :: "(BTKey \<times> BTPayload) list"
  seen :: "int list"
  idx :: HCIndex

definition hc_range_cb_hot :: "BTKey \<Rightarrow> BTPayload \<Rightarrow> HCRangeCtx \<Rightarrow> fault + HCRangeCtx" where
  "hc_range_cb_hot k v ctx =
     (if k < 0 \<or> k > max_key (idx ctx) then Inr ctx
      else if \<not> nat k < length (seen ctx) then Inl NullDeref
      else if seen ctx ! nat k = 0
           then Inr (ctx\<lparr>seen := (seen ctx)[nat k := 1],
                         user_calls := user_calls ctx @ [(k, v)]\<rparr>)
           else Inr ctx)"

definition hc_range_cb_cold :: "BTKey \<Rightarrow> BTPayload \<Rightarrow> HCRangeCtx \<Rightarrow> fault + HCRangeCtx" where
  "hc_range_cb_cold k v ctx =
     (if k < 0 \<or> k > max_key (idx ctx) then Inr ctx
      else if \<not> nat k < length (seen ctx) then Inl NullDeref
      else if seen ctx ! nat k = 0
           then Inr (ctx\<lparr>seen := (seen ctx)[nat k := 1],
                         user_calls := user_calls ctx @ [(k, v)]\<rparr>)
           else Inr ctx)"

text \<open>
  \<^verbatim>\<open>hc_range_search\<close> gives the calls made to the caller's callback. The marks are
  \<^verbatim>\<open>calloc(max_key + 1, sizeof(int64_t))\<close>, unchecked. The index is written after both
  scans only, so a scan that faults leaves it as it was.
\<close>

definition hc_range_search ::
  "platform \<Rightarrow> HCIndex \<Rightarrow> BTKey \<Rightarrow> BTKey \<Rightarrow> bool
     \<Rightarrow> (fault + (BTKey \<times> BTPayload) list) \<times> HCIndex" where
  "hc_range_search m h lo hi granted =
     (let ctx = \<lparr>user_calls = [], seen = calloc granted (size_t_of (max_key h + 1)) 8, idx = h\<rparr>;
          (r1, hot_s) = bt_range_search m (hot h) lo hi hc_range_cb_hot ctx
      in case r1 of
           Inl f \<Rightarrow> (Inl f, h)
         | Inr ctx1 \<Rightarrow>
             (let (r2, cold_s) = bt_range_search m (cold h) lo hi hc_range_cb_cold ctx1
              in case r2 of
                   Inl f \<Rightarrow> (Inl f, h)
                 | Inr ctx2 \<Rightarrow>
                     (Inr (user_calls ctx2),
                      h\<lparr>stats := (stats h)
                          \<lparr>hot_node_visits := hot_node_visits (stats h) + int hot_s,
                           cold_node_visits := cold_node_visits (stats h) + int cold_s\<rparr>\<rparr>)))"

definition hc_get_stats :: "HCIndex \<Rightarrow> HCStats" where
  "hc_get_stats h =
     (stats h)\<lparr>hot_keys := int (bt_count_keys (hot h)),
               cold_keys := int (bt_count_keys (cold h)),
               final_sampling_rate := sampling_rate (params h)\<rparr>"

section \<open>Sequences of calls\<close>

text \<open>
  A client drives the index through its four operations. \<open>Search k r\<close> is
  \<^verbatim>\<open>hc_search(idx, k)\<close> in a run where \<^verbatim>\<open>rand()\<close>, if the call reaches it, returns \<open>r\<close>;
  \<open>RangeSearch lo hi granted\<close> is a range scan whose \<^verbatim>\<open>calloc\<close> the library grants or
  not. A call that faults ends the process: \<open>run\<close> gives the index after the last call, or
  as the first fault leaves it.
\<close>

datatype hc_call =
    Insert BTKey BTPayload
  | Search BTKey nat
  | RangeSearch BTKey BTKey bool
  | GetStats

fun exec :: "platform \<Rightarrow> hc_call \<Rightarrow> HCIndex \<Rightarrow> fault option \<times> HCIndex" where
  "exec m (Insert k v) h = (None, snd (hc_insert h k v))"
| "exec m (Search k r) h =
     (case hc_search m h k r of (Inl f, h') \<Rightarrow> (Some f, h') | (Inr v, h') \<Rightarrow> (None, h'))"
| "exec m (RangeSearch lo hi granted) h =
     (case hc_range_search m h lo hi granted of
        (Inl f, h') \<Rightarrow> (Some f, h') | (Inr calls, h') \<Rightarrow> (None, h'))"
| "exec m GetStats h = (None, h)"

fun run :: "platform \<Rightarrow> hc_call list \<Rightarrow> HCIndex \<Rightarrow> HCIndex" where
  "run m [] h = h"
| "run m (c # cs) h =
     (case exec m c h of (None, h') \<Rightarrow> run m cs h' | (Some f, h') \<Rightarrow> h')"

section \<open>Notions used to state the properties\<close>

text \<open>
  Properties of rounding that IEEE rounding to nearest has: it is monotone, it leaves a
  rounded value as it is, and \<open>0\<close> and \<open>1\<close> are values of the format.
\<close>

definition fl_mono :: "platform \<Rightarrow> bool" where
  "fl_mono m \<longleftrightarrow> (\<forall>x y. x \<le> y \<longrightarrow> fl m x \<le> fl m y)"

definition rounding_ok :: "platform \<Rightarrow> bool" where
  "rounding_ok m \<longleftrightarrow>
     fl_mono m \<and> (\<forall>x. fl m (fl m x) = fl m x) \<and> fl m 0 = 0 \<and> fl m 1 = 1"

text \<open>The clamp to \<open>[0, 1]\<close> that the adapter and the promotion gate both write out.\<close>

definition clamp01 :: "real \<Rightarrow> real" where
  "clamp01 D = (let D1 = (if D < 0 then 0 else D) in if D1 > 1 then 1 else D1)"

text \<open>
  Three values that \<^verbatim>\<open>hctree.c\<close> computes in \<^verbatim>\<open>double\<close>: the draw \<open>u\<close> of
  \<^verbatim>\<open>maybe_promote\<close> (line 122), its capacity bound \<open>max_hot\<close> (line 133), and the updated
  score of \<^verbatim>\<open>hc_search\<close> (lines 166 and 180).
\<close>

definition draw :: "platform \<Rightarrow> nat \<Rightarrow> real" where
  "draw m r = ddiv m (dcast m (int r)) (dadd m (dcast m (int RAND_MAX)) 1)"

definition max_hot :: "platform \<Rightarrow> HCIndex \<Rightarrow> real" where
  "max_hot m h =
     dmul m (max_hot_fraction (params h)) (dcast m (int (size_t_of (max_key h + 1))))"

definition new_score :: "platform \<Rightarrow> HCIndex \<Rightarrow> BTKey \<Rightarrow> real" where
  "new_score m h k = dadd m (dmul m (decay_alpha (params h)) (hit_score h ! nat k)) 1"

text \<open>
  The gates of \<^verbatim>\<open>maybe_promote\<close>, in the order of the code: mode, sampling, capacity,
  already hot, present in cold.
\<close>

definition promotes :: "platform \<Rightarrow> HCIndex \<Rightarrow> BTKey \<Rightarrow> nat \<Rightarrow> bool" where
  "promotes m h k r \<longleftrightarrow>
     inclusive (params h) \<and>
     \<not> draw m r > clamp01 (sampling_rate (params h)) \<and>
     \<not> dcast m (int (bt_count_keys (hot h))) \<ge> max_hot m h \<and>
     fst (bt_search m (hot h) k) = NULL \<and>
     fst (bt_search m (cold h) k) \<noteq> NULL"

text \<open>The first two statements of \<^verbatim>\<open>hc_search\<close>: count the query, then let the adapter run.\<close>

definition after_adapt :: "platform \<Rightarrow> HCIndex \<Rightarrow> HCIndex" where
  "after_adapt m h =
     hc_maybe_adapt_sampling m (h\<lparr>stats := (stats h)\<lparr>queries := queries (stats h) + 1\<rparr>\<rparr>)"

text \<open>
  What every state reached from \<^verbatim>\<open>hc_create(mk, _, p)\<close> satisfies: \<^verbatim>\<open>max_key\<close> keeps its
  value, only \<open>sampling_rate\<close> moves among the parameters, both tiers stay in ascending key
  order, the keys of the hot tier are keys of the cold tier, and all keys lie in
  \<open>[0, mk]\<close>.
\<close>

definition hc_inv :: "int \<Rightarrow> HCParams \<Rightarrow> HCIndex \<Rightarrow> bool" where
  "hc_inv mk p h \<longleftrightarrow>
     max_key h = mk \<and>
     adapt_sampling (params h) = adapt_sampling p \<and>
     decay_alpha (params h) = decay_alpha p \<and>
     hot_threshold (params h) = hot_threshold p \<and>
     max_hot_fraction (params h) = max_hot_fraction p \<and>
     inclusive (params h) = inclusive p \<and>
     bt_sorted (hot h) \<and> bt_sorted (cold h) \<and>
     bt_keys (hot h) \<subseteq> bt_keys (cold h) \<and>
     bt_keys (cold h) \<subseteq> {0..mk}"

text \<open>The key \<open>k\<close>, if it is in the hot tier, has there the payload the cold tier has for it.\<close>

definition same_payload :: "HCIndex \<Rightarrow> BTKey \<Rightarrow> bool" where
  "same_payload h k \<longleftrightarrow> (k \<in> bt_keys (hot h) \<longrightarrow> map_of (hot h) k = map_of (cold h) k)"

text \<open>
  The call \<open>c\<close>, made on \<open>h\<close>, is an \<^verbatim>\<open>hc_insert\<close> that gives the key \<open>k\<close>, which is in the
  hot tier, a payload other than the one it has there.
\<close>

definition overwrites_hot :: "BTKey \<Rightarrow> hc_call \<Rightarrow> HCIndex \<Rightarrow> bool" where
  "overwrites_hot k c h =
     (case c of
        Insert k' v \<Rightarrow> k' = k \<and> (case map_of (hot h) k of None \<Rightarrow> False | Some w \<Rightarrow> w \<noteq> v)
      | _ \<Rightarrow> False)"

text \<open>A sequence of calls, run from \<open>h\<close>, none of which overwrites the key \<open>k\<close> while it is hot.\<close>

fun never_overwritten :: "platform \<Rightarrow> BTKey \<Rightarrow> hc_call list \<Rightarrow> HCIndex \<Rightarrow> bool" where
  "never_overwritten m k [] h = True"
| "never_overwritten m k (c # cs) h =
     (\<not> overwrites_hot k c h \<and>
      (case exec m c h of
         (None, h') \<Rightarrow> never_overwritten m k cs h'
       | (Some f, h') \<Rightarrow> True))"

text \<open>
  The state of a range scan between two callbacks: the marks are exactly the keys handed
  to the caller so far, each handed over once, and the array of marks covers the key
  domain.
\<close>

definition ctx_ok :: "int \<Rightarrow> HCRangeCtx \<Rightarrow> bool" where
  "ctx_ok mk ctx \<longleftrightarrow>
     max_key (idx ctx) = mk \<and>
     (mk < 0 \<or> mk < int (length (seen ctx))) \<and>
     distinct (map fst (user_calls ctx)) \<and>
     fst ` set (user_calls ctx) = {k. 0 \<le> k \<and> k \<le> mk \<and> seen ctx ! nat k \<noteq> 0}"

text \<open>
  The values the adapter computes in \<^verbatim>\<open>double\<close>: its cost signal, the node visits of the
  whole lifetime per query (lines 59 to 61), and the differences \<open>dC\<close> and \<open>dD\<close> (lines 80
  and 81).
\<close>

definition adapt_cost :: "platform \<Rightarrow> HCIndex \<Rightarrow> real" where
  "adapt_cost m h =
     (if queries (stats h) > 0
      then ddiv m (dadd m (dcast m (hot_node_visits (stats h)))
                          (dcast m (cold_node_visits (stats h))))
                  (dcast m (queries (stats h)))
      else 0)"

definition adapt_dC :: "platform \<Rightarrow> HCIndex \<Rightarrow> real" where
  "adapt_dC m h = dsub m (adapt_cost m h) (last_cost h)"

definition adapt_dD :: "platform \<Rightarrow> HCIndex \<Rightarrow> real" where
  "adapt_dD m h = dsub m (sampling_rate (params h)) (last_D h)"

text \<open>
  The decision rule in the words of the specification, its arithmetic being that of
  \<^verbatim>\<open>double\<close>: reinforce the last move of \<open>D\<close> when \<open>dC \<times> dD < 0\<close>, reverse it when
  \<open>dC \<times> dD > 0\<close>, else keep \<open>D\<close>; the step is \<open>0.05\<close> in the direction of \<open>dD\<close>.
\<close>

definition spec_decision :: "platform \<Rightarrow> real \<Rightarrow> real \<Rightarrow> real \<Rightarrow> real" where
  "spec_decision m D dC dD =
     (if dmul m dC dD < 0 then dadd m D (dmul m (dlit m 0.05) (sgn dD))
      else if dmul m dC dD > 0 then dsub m D (dmul m (dlit m 0.05) (sgn dD))
      else D)"

text \<open>
  The score after \<open>n\<close> hits as the code computes it, from the score \<open>s\<close>: each hit takes
  \<open>s\<close> to the rounded sum of the rounded product \<open>decay_alpha \<times> s\<close> and \<open>1\<close>.
\<close>

fun score_after :: "platform \<Rightarrow> real \<Rightarrow> nat \<Rightarrow> real \<Rightarrow> real" where
  "score_after m a 0 s = s"
| "score_after m a (Suc n) s = dadd m (dmul m a (score_after m a n s)) 1"

text \<open>
  The score of the key \<open>k\<close> after consecutive lookups of \<open>k\<close> from the state \<open>h\<close>, one
  for each draw of \<open>rs\<close>.
\<close>

definition score_of :: "platform \<Rightarrow> HCIndex \<Rightarrow> BTKey \<Rightarrow> nat list \<Rightarrow> real" where
  "score_of m h k rs = hit_score (run m (map (Search k) rs) h) ! nat k"

text \<open>
  No rounding occurs in the first \<open>n\<close> hits on a score that starts at \<open>0\<close>: the
  products and sums met on the way, which are those of the partial sums of the geometric
  series, are values of the format.
\<close>

definition no_rounding :: "platform \<Rightarrow> real \<Rightarrow> nat \<Rightarrow> bool" where
  "no_rounding m a n \<longleftrightarrow>
     (\<forall>j<n. fl m (a * (\<Sum>i<j. a ^ i)) = a * (\<Sum>i<j. a ^ i) \<and>
            fl m (a * (\<Sum>i<j. a ^ i) + 1) = a * (\<Sum>i<j. a ^ i) + 1)"

text \<open>
  A platform for the examples: arithmetic without rounding error, every operation of the
  B-tree visiting one node.
\<close>

definition exact_unit :: platform where
  "exact_unit = \<lparr>fl = (\<lambda>x. x), search_visits = (\<lambda>t k. 1), range_visits = (\<lambda>t lo hi. 1)\<rparr>"

text \<open>
  The configuration of the example scenario of the specification: full sampling, threshold
  \<open>1.5\<close>, decay \<open>0.5\<close>, no capacity limit, no adaptation.
\<close>

definition example_params :: HCParams where
  "example_params = \<lparr>adapt_sampling = False, sampling_rate = 1, decay_alpha = 1 / 2,
     hot_threshold = 3 / 2, max_hot_fraction = 1, inclusive = True\<rparr>"

text \<open>
  A configuration with adaptation on: full sampling, no decay, threshold \<open>1\<close> (the
  first hit of a key makes it eligible), no capacity limit.
\<close>

definition adaptive_params :: HCParams where
  "adaptive_params = \<lparr>adapt_sampling = True, sampling_rate = 1, decay_alpha = 0,
     hot_threshold = 1, max_hot_fraction = 1, inclusive = True\<rparr>"

text \<open>
  The index \<^verbatim>\<open>hc_create(9, 4, adaptive_params)\<close> after \<^verbatim>\<open>hc_insert(1, 7)\<close> and \<open>n\<close>
  lookups of the key 1, for \<open>1 \<le> n < 5000\<close>, written out: the first lookup is a cold hit
  that promotes the key, the others are hot hits.
\<close>

definition warm :: "nat \<Rightarrow> HCIndex" where
  "warm n =
     \<lparr>hot = [(1, 7)], cold = [(1, 7)], max_key = 9,
      hit_score = [0, 1, 0, 0, 0, 0, 0, 0, 0, 0],
      params = adaptive_params,
      stats = \<lparr>queries = int n, hot_hits = int n - 1, cold_hits = 1, not_found = 0,
                hot_node_visits = int n, cold_node_visits = 1, hot_keys = 0, cold_keys = 0,
                final_sampling_rate = 0\<rparr>,
      last_q_for_adapt = 0, last_cost = 0, last_D = 1\<rparr>"

text \<open>The same index after 4999 lookups of the key 1 and \<^verbatim>\<open>hc_insert(2, 8)\<close>.\<close>

definition busy_index :: HCIndex where
  "busy_index =
     run exact_unit (Insert 1 7 # replicate 4999 (Search 1 0) @ [Insert 2 8])
       (hc_create True 9 4 adaptive_params)"

text \<open>A configuration whose hot tier may hold a quarter of the keys.\<close>

definition quarter_params :: HCParams where
  "quarter_params = \<lparr>adapt_sampling = False, sampling_rate = 1, decay_alpha = 0,
     hot_threshold = 1, max_hot_fraction = 1 / 4, inclusive = True\<rparr>"

text \<open>A configuration whose hot tier may hold a fifth of the keys.\<close>

definition fifth_params :: HCParams where
  "fifth_params = \<lparr>adapt_sampling = False, sampling_rate = 1, decay_alpha = 0,
     hot_threshold = 1, max_hot_fraction = 1 / 5, inclusive = True\<rparr>"

text \<open>A state at the moment of a second adaptation, for the example of the decision rule.\<close>

definition second_adaptation :: HCIndex where
  "second_adaptation =
     \<lparr>hot = [(1, 7)], cold = [(1, 7), (2, 8)], max_key = 9,
      hit_score = [0, 1, 1, 0, 0, 0, 0, 0, 0, 0],
      params = adaptive_params\<lparr>sampling_rate := 19 / 20\<rparr>,
      stats = \<lparr>queries = 10000, hot_hits = 4998, cold_hits = 5001, not_found = 0,
                hot_node_visits = 9999, cold_node_visits = 5001, hot_keys = 0, cold_keys = 0,
                final_sampling_rate = 0\<rparr>,
      last_q_for_adapt = 5000, last_cost = 1, last_D = 1\<rparr>"

section \<open>Basic properties\<close>

subsection \<open>The ordered index\<close>

lemma set_fst_bt_insert: "set (map fst (bt_insert t k v)) = insert k (set (map fst t))"
proof (induction t)
  case Nil
  then show ?case by simp
next
  case (Cons a t)
  obtain k' v' where a: "a = (k', v')" by (cases a)
  from Cons show ?case unfolding a by (simp del: set_map) blast
qed

lemma bt_keys_insert: "bt_keys (bt_insert t k v) = insert k (bt_keys t)"
  using set_fst_bt_insert [of t k v] by (simp add: bt_keys_def)

lemma bt_sorted_insert: "bt_sorted t \<Longrightarrow> bt_sorted (bt_insert t k v)"
proof (induction t)
  case Nil
  then show ?case by (simp add: bt_sorted_def)
next
  case (Cons a t)
  obtain k' v' where a: "a = (k', v')" by (cases a)
  have ks: "fst ` set (bt_insert t k v) = insert k (fst ` set t)"
    using bt_keys_insert [of t k v] by (simp add: bt_keys_def)
  from Cons show ?case
    by (auto simp: a bt_sorted_def ks)
qed

lemma map_of_bt_insert: "map_of (bt_insert t k v) = (map_of t)(k \<mapsto> v)"
  by (induction t) (auto simp: fun_eq_iff)

lemma length_bt_insert_le: "length (bt_insert t k v) \<le> Suc (length t)"
  by (induction t) auto

lemma length_bt_insert_ge: "length t \<le> length (bt_insert t k v)"
  by (induction t) auto

lemma map_of_bt_keys: "map_of t k = Some v \<Longrightarrow> k \<in> bt_keys t"
  by (auto simp: bt_keys_def dest: map_of_SomeD intro: rev_image_eqI)

lemma bt_keys_map_of: "k \<in> bt_keys t \<Longrightarrow> \<exists>v. map_of t k = Some v"
  by (metis bt_keys_def domD dom_map_of_conv_image_fst)

lemma bt_search_absent: "k \<notin> bt_keys t \<Longrightarrow> fst (bt_search m t k) = NULL"
  by (auto simp: bt_search_def split: option.splits dest: map_of_bt_keys)

lemma bt_search_present:
  "fst (bt_search m t k) \<noteq> NULL \<Longrightarrow> map_of t k = Some (fst (bt_search m t k))"
  by (auto simp: bt_search_def split: option.splits)

subsection \<open>The adapter\<close>

lemma adapt_frame:
  "hot (hc_maybe_adapt_sampling m h) = hot h"
  "cold (hc_maybe_adapt_sampling m h) = cold h"
  "max_key (hc_maybe_adapt_sampling m h) = max_key h"
  "hit_score (hc_maybe_adapt_sampling m h) = hit_score h"
  "stats (hc_maybe_adapt_sampling m h) = stats h"
  by (simp_all add: hc_maybe_adapt_sampling_def Let_def)

lemma adapt_params:
  "params (hc_maybe_adapt_sampling m h) =
     (params h)\<lparr>sampling_rate := sampling_rate (params (hc_maybe_adapt_sampling m h))\<rparr>"
  by (simp add: hc_maybe_adapt_sampling_def Let_def)

lemma adapt_rate_bounds:
  "0 \<le> sampling_rate (params h) \<Longrightarrow> sampling_rate (params h) \<le> 1 \<Longrightarrow>
   0 \<le> sampling_rate (params (hc_maybe_adapt_sampling m h)) \<and>
   sampling_rate (params (hc_maybe_adapt_sampling m h)) \<le> 1"
  by (simp add: hc_maybe_adapt_sampling_def Let_def)

lemma adapt_params_fields:
  "adapt_sampling (params (hc_maybe_adapt_sampling m h)) = adapt_sampling (params h)"
  "decay_alpha (params (hc_maybe_adapt_sampling m h)) = decay_alpha (params h)"
  "hot_threshold (params (hc_maybe_adapt_sampling m h)) = hot_threshold (params h)"
  "max_hot_fraction (params (hc_maybe_adapt_sampling m h)) = max_hot_fraction (params h)"
  "inclusive (params (hc_maybe_adapt_sampling m h)) = inclusive (params h)"
  by (subst adapt_params, simp)+

lemma after_adapt_fields:
  "hot (after_adapt m h) = hot h"
  "cold (after_adapt m h) = cold h"
  "max_key (after_adapt m h) = max_key h"
  "hit_score (after_adapt m h) = hit_score h"
  "adapt_sampling (params (after_adapt m h)) = adapt_sampling (params h)"
  "decay_alpha (params (after_adapt m h)) = decay_alpha (params h)"
  "hot_threshold (params (after_adapt m h)) = hot_threshold (params h)"
  "max_hot_fraction (params (after_adapt m h)) = max_hot_fraction (params h)"
  "inclusive (params (after_adapt m h)) = inclusive (params h)"
  by (simp_all add: after_adapt_def adapt_frame adapt_params_fields)

lemma after_adapt_stats:
  "stats (after_adapt m h) = (stats h)\<lparr>queries := queries (stats h) + 1\<rparr>"
  by (simp add: after_adapt_def adapt_frame)

subsection \<open>Promotion\<close>

lemma maybe_promote_eq:
  "maybe_promote m h k r =
     (if promotes m h k r then h\<lparr>hot := bt_insert (hot h) k (fst (bt_search m (cold h) k))\<rparr> else h)"
  unfolding maybe_promote_def promotes_def clamp01_def draw_def max_hot_def Let_def case_prod_beta
  by simp

lemma maybe_promote_fields:
  "cold (maybe_promote m h k r) = cold h"
  "max_key (maybe_promote m h k r) = max_key h"
  "hit_score (maybe_promote m h k r) = hit_score h"
  "params (maybe_promote m h k r) = params h"
  "stats (maybe_promote m h k r) = stats h"
  "last_q_for_adapt (maybe_promote m h k r) = last_q_for_adapt h"
  "last_cost (maybe_promote m h k r) = last_cost h"
  "last_D (maybe_promote m h k r) = last_D h"
  by (simp_all add: maybe_promote_eq)

lemma promotes_upd:
  "promotes m (h\<lparr>stats := s\<rparr>) k r = promotes m h k r"
  "promotes m (h\<lparr>hit_score := x\<rparr>) k r = promotes m h k r"
  by (simp_all add: promotes_def max_hot_def)

subsection \<open>Lookups\<close>

lemma hc_search_fields:
  "cold (snd (hc_search m h k r)) = cold h"
  "max_key (snd (hc_search m h k r)) = max_key h"
  "length (hit_score (snd (hc_search m h k r))) = length (hit_score h)"
  by (simp_all add: hc_search_def Let_def adapt_frame maybe_promote_fields case_prod_beta)

lemma hc_search_params:
  "adapt_sampling (params (snd (hc_search m h k r))) = adapt_sampling (params h)"
  "decay_alpha (params (snd (hc_search m h k r))) = decay_alpha (params h)"
  "hot_threshold (params (snd (hc_search m h k r))) = hot_threshold (params h)"
  "max_hot_fraction (params (snd (hc_search m h k r))) = max_hot_fraction (params h)"
  "inclusive (params (snd (hc_search m h k r))) = inclusive (params h)"
  by (simp_all add: hc_search_def Let_def maybe_promote_fields case_prod_beta adapt_params_fields)

lemma hc_search_rate:
  "sampling_rate (params (snd (hc_search m h k r))) = sampling_rate (params (after_adapt m h))"
  unfolding hc_search_def after_adapt_def [symmetric] Let_def case_prod_beta
  by (simp add: maybe_promote_fields)

lemma hc_search_hot_eq:
  "hot (snd (hc_search m h k r)) =
     (if 0 \<le> k \<and> k \<le> max_key h \<and> nat k < length (hit_score h) \<and>
         new_score m h k \<ge> hot_threshold (params h) \<and>
         promotes m (after_adapt m h) k r
      then bt_insert (hot h) k (fst (bt_search m (cold h) k)) else hot h)"
  unfolding hc_search_def after_adapt_def [symmetric] Let_def case_prod_beta
  by (simp add: after_adapt_fields maybe_promote_eq new_score_def promotes_upd)
    (auto simp: promotes_def after_adapt_fields)

subsection \<open>Range scans and runs\<close>

lemma hc_range_search_state:
  "snd (hc_range_search m h lo hi g) =
     (case fst (hc_range_search m h lo hi g) of
        Inl f \<Rightarrow> h
      | Inr calls \<Rightarrow>
          h\<lparr>stats := (stats h)
              \<lparr>hot_node_visits := hot_node_visits (stats h) + int (range_visits m (hot h) lo hi),
               cold_node_visits := cold_node_visits (stats h) + int (range_visits m (cold h) lo hi)\<rparr>\<rparr>)"
  by (simp add: hc_range_search_def bt_range_search_def Let_def case_prod_beta split: sum.splits)

lemma hc_range_search_fields:
  "hot (snd (hc_range_search m h lo hi g)) = hot h"
  "cold (snd (hc_range_search m h lo hi g)) = cold h"
  "max_key (snd (hc_range_search m h lo hi g)) = max_key h"
  "hit_score (snd (hc_range_search m h lo hi g)) = hit_score h"
  "params (snd (hc_range_search m h lo hi g)) = params h"
  "last_q_for_adapt (snd (hc_range_search m h lo hi g)) = last_q_for_adapt h"
  "last_cost (snd (hc_range_search m h lo hi g)) = last_cost h"
  "last_D (snd (hc_range_search m h lo hi g)) = last_D h"
  by (subst hc_range_search_state, simp split: sum.splits)+

lemma snd_exec:
  "snd (exec m (Insert k v) h) = snd (hc_insert h k v)"
  "snd (exec m (Search k r) h) = snd (hc_search m h k r)"
  "snd (exec m (RangeSearch lo hi g) h) = snd (hc_range_search m h lo hi g)"
  "snd (exec m GetStats h) = h"
  by (simp_all add: case_prod_beta split: sum.splits)

lemma run_Cons:
  "run m (c # cs) h =
     (if fst (exec m c h) = None then run m cs (snd (exec m c h)) else snd (exec m c h))"
  by (cases "exec m c h") (auto split: option.splits)

lemma run_single: "run m [c] h = snd (exec m c h)"
  by (cases "exec m c h") (auto split: option.splits)

lemma run_invariant:
  assumes "P h" and "\<And>c h. P h \<Longrightarrow> P (snd (exec m c h))"
  shows "P (run m cs h)"
  using assms(1)
proof (induction cs arbitrary: h)
  case Nil
  then show ?case by simp
next
  case (Cons c cs)
  from Cons.prems have "P (snd (exec m c h))" by (rule assms(2))
  with Cons.IH show ?case by (simp add: run_Cons del: run.simps)
qed

subsection \<open>The invariant of reachable states\<close>

lemma hc_inv_create: "hc_inv mk p (hc_create g mk deg p)"
  by (simp add: hc_inv_def hc_create_def bt_create_def bt_sorted_def bt_keys_def)

lemma hc_inv_insert: "hc_inv mk p h \<Longrightarrow> hc_inv mk p (snd (hc_insert h k v))"
  by (auto simp: hc_inv_def hc_insert_def bt_sorted_insert bt_keys_insert)

lemma hc_inv_search:
  assumes "hc_inv mk p h"
  shows "hc_inv mk p (snd (hc_search m h k r))"
proof -
  let ?h' = "snd (hc_search m h k r)"
  have hot: "bt_sorted (hot ?h') \<and> bt_keys (hot ?h') \<subseteq> bt_keys (cold h)"
  proof (cases "hot ?h' = hot h")
    case True
    with assms show ?thesis by (simp add: hc_inv_def)
  next
    case False
    then have e: "hot ?h' = bt_insert (hot h) k (fst (bt_search m (cold h) k))"
      and c: "fst (bt_search m (cold h) k) \<noteq> NULL"
      by (auto simp: hc_search_hot_eq promotes_def after_adapt_fields split: if_splits)
    from c have "k \<in> bt_keys (cold h)"
      using bt_search_absent by blast
    with assms e show ?thesis
      by (simp add: hc_inv_def bt_sorted_insert bt_keys_insert)
  qed
  from assms hot show ?thesis
    by (simp add: hc_inv_def hc_search_fields hc_search_params)
qed

lemma hc_inv_range: "hc_inv mk p h \<Longrightarrow> hc_inv mk p (snd (hc_range_search m h lo hi g))"
  by (simp add: hc_range_search_fields hc_inv_def)

lemma hc_inv_exec: "hc_inv mk p h \<Longrightarrow> hc_inv mk p (snd (exec m c h))"
  by (cases c) (simp_all add: snd_exec hc_inv_insert hc_inv_search hc_inv_range del: exec.simps)

lemma hc_inv_reachable: "hc_inv mk p (run m cs (hc_create g mk deg p))"
  by (rule run_invariant [OF hc_inv_create hc_inv_exec])

subsection \<open>Evaluation of the examples\<close>

lemma rounding_ok_exact: "rounding_ok exact_unit" "fl_mono exact_unit"
  by (simp_all add: rounding_ok_def fl_mono_def exact_unit_def)

lemma replicate_ten: "replicate 10 x = [x, x, x, x, x, x, x, x, x, x]"
  by (simp add: eval_nat_numeral)

lemmas example_defs =
  hc_create_def hc_insert_def hc_search_def hc_maybe_adapt_sampling_def
  hc_range_search_def bt_range_search_def hc_range_cb_hot_def hc_range_cb_cold_def
  maybe_promote_def bt_create_def bt_search_def bt_count_keys_def bt_keys_def
  calloc_def dadd_def dsub_def dmul_def ddiv_def dcast_def dlit_def
  NULL_def RAND_MAX_def MIN_DELTA_Q_def size_t_of_def zero_stats_def
  exact_unit_def example_params_def replicate_ten Let_def

section \<open>Frame properties\<close>

text \<open>
  C9. A range scan changes nothing of the index but the two node-visit counters, which it
  increases by the visit counts of the hot scan and of the cold scan: the query, hit and
  not-found counters, the scores, both tiers, the parameters (so the sampling rate) and the
  adapter's memory are as before. Hence it neither promotes nor adapts nor advances the
  query count. A scan that faults on its unallocated marks has not written the index at
  all.
\<close>

theorem hc_range_search_frame:
  "snd (hc_range_search m h lo hi g) =
     (case fst (hc_range_search m h lo hi g) of
        Inl f \<Rightarrow> h
      | Inr calls \<Rightarrow>
          h\<lparr>stats := (stats h)
              \<lparr>hot_node_visits := hot_node_visits (stats h) + int (range_visits m (hot h) lo hi),
               cold_node_visits := cold_node_visits (stats h) + int (range_visits m (cold h) lo hi)\<rparr>\<rparr>)
   \<and> hot_node_visits (stats h) \<le> hot_node_visits (stats (snd (hc_range_search m h lo hi g)))
   \<and> cold_node_visits (stats h) \<le> cold_node_visits (stats (snd (hc_range_search m h lo hi g)))
   \<and> queries (stats (snd (hc_range_search m h lo hi g))) = queries (stats h)
   \<and> hot_hits (stats (snd (hc_range_search m h lo hi g))) = hot_hits (stats h)
   \<and> cold_hits (stats (snd (hc_range_search m h lo hi g))) = cold_hits (stats h)
   \<and> not_found (stats (snd (hc_range_search m h lo hi g))) = not_found (stats h)
   \<and> hit_score (snd (hc_range_search m h lo hi g)) = hit_score h
   \<and> hot (snd (hc_range_search m h lo hi g)) = hot h
   \<and> cold (snd (hc_range_search m h lo hi g)) = cold h
   \<and> params (snd (hc_range_search m h lo hi g)) = params h
   \<and> last_q_for_adapt (snd (hc_range_search m h lo hi g)) = last_q_for_adapt h
   \<and> last_cost (snd (hc_range_search m h lo hi g)) = last_cost h
   \<and> last_D (snd (hc_range_search m h lo hi g)) = last_D h"
proof -
  have 1: "snd (hc_range_search m h lo hi g) =
     (case fst (hc_range_search m h lo hi g) of
        Inl f \<Rightarrow> h
      | Inr calls \<Rightarrow>
          h\<lparr>stats := (stats h)
              \<lparr>hot_node_visits := hot_node_visits (stats h) + int (range_visits m (hot h) lo hi),
               cold_node_visits := cold_node_visits (stats h) + int (range_visits m (cold h) lo hi)\<rparr>\<rparr>)"
    by (rule hc_range_search_state)
  have 2:
    "hot_node_visits (stats h) \<le> hot_node_visits (stats (snd (hc_range_search m h lo hi g)))"
    "cold_node_visits (stats h) \<le> cold_node_visits (stats (snd (hc_range_search m h lo hi g)))"
    "queries (stats (snd (hc_range_search m h lo hi g))) = queries (stats h)"
    "hot_hits (stats (snd (hc_range_search m h lo hi g))) = hot_hits (stats h)"
    "cold_hits (stats (snd (hc_range_search m h lo hi g))) = cold_hits (stats h)"
    "not_found (stats (snd (hc_range_search m h lo hi g))) = not_found (stats h)"
    by (subst 1, simp split: sum.splits)+
  show ?thesis
    by (intro conjI 1 2 hc_range_search_fields)
qed

theorem hc_range_search_frame_witness:
  "stats (snd (hc_range_search exact_unit
      (run exact_unit [Insert 4 65, Insert 2 3, Search 4 0, Search 4 0]
        (hc_create True 9 4 example_params))
      0 5 True)) =
   \<lparr>queries = 2, hot_hits = 0, cold_hits = 2, not_found = 0,
    hot_node_visits = 3, cold_node_visits = 3, hot_keys = 0, cold_keys = 0,
    final_sampling_rate = 0\<rparr>
   \<and> hot (snd (hc_range_search exact_unit
      (run exact_unit [Insert 4 65, Insert 2 3, Search 4 0, Search 4 0]
        (hc_create True 9 4 example_params))
      0 5 True)) = [(4, 65)]
   \<and> hc_range_search exact_unit
      (run exact_unit [Insert 4 65, Insert 2 3, Search 4 0, Search 4 0]
        (hc_create True 9 4 example_params))
      0 5 False =
      (Inl NullDeref, run exact_unit [Insert 4 65, Insert 2 3, Search 4 0, Search 4 0]
        (hc_create True 9 4 example_params))"
  using hc_range_search_frame [of exact_unit
      "run exact_unit [Insert 4 65, Insert 2 3, Search 4 0, Search 4 0]
         (hc_create True 9 4 example_params)"
      0 5 True]
  by (simp add: example_defs)

text \<open>
  C10. \<^verbatim>\<open>maybe_promote\<close> either leaves the index as it is or inserts the key into the hot
  tier with the payload found in the cold tier, and changes nothing else: the cold tier,
  the scores, every counter, the parameters and the adapter's memory are as before. In
  particular the visits of its two internal lookups are not added to the node-visit
  counters, from which the adapter computes its cost.
\<close>

theorem maybe_promote_changes_hot_only:
  "(maybe_promote m h k r = h \<or>
    (fst (bt_search m (cold h) k) \<noteq> NULL \<and>
     maybe_promote m h k r = h\<lparr>hot := bt_insert (hot h) k (fst (bt_search m (cold h) k))\<rparr>))
   \<and> cold (maybe_promote m h k r) = cold h
   \<and> hit_score (maybe_promote m h k r) = hit_score h
   \<and> stats (maybe_promote m h k r) = stats h
   \<and> hot_node_visits (stats (maybe_promote m h k r)) = hot_node_visits (stats h)
   \<and> cold_node_visits (stats (maybe_promote m h k r)) = cold_node_visits (stats h)
   \<and> params (maybe_promote m h k r) = params h
   \<and> last_q_for_adapt (maybe_promote m h k r) = last_q_for_adapt h
   \<and> last_cost (maybe_promote m h k r) = last_cost h
   \<and> last_D (maybe_promote m h k r) = last_D h"
  by (simp add: maybe_promote_fields) (simp add: maybe_promote_eq promotes_def)

theorem maybe_promote_changes_hot_only_witness:
  "maybe_promote exact_unit (run exact_unit [Insert 4 65] (hc_create True 9 4 example_params)) 4 0 =
     (run exact_unit [Insert 4 65] (hc_create True 9 4 example_params))\<lparr>hot := [(4, 65)]\<rparr>
   \<and> stats (maybe_promote exact_unit
        (run exact_unit [Insert 4 65] (hc_create True 9 4 example_params)) 4 0) = zero_stats"
  using maybe_promote_changes_hot_only [of exact_unit
      "run exact_unit [Insert 4 65] (hc_create True 9 4 example_params)" 4 0]
  by (simp add: example_defs)

section \<open>Inclusion of the hot tier in the cold tier\<close>

lemma same_payload_insert:
  assumes "same_payload h k" and "\<not> overwrites_hot k (Insert k' v) h"
  shows "same_payload (snd (hc_insert h k' v)) k"
proof (cases "k' < 0 \<or> k' > max_key h")
  case True
  with assms show ?thesis by (simp add: hc_insert_def)
next
  case False
  have "map_of (hot h) k = ((map_of (cold h))(k' \<mapsto> v)) k" if "k \<in> bt_keys (hot h)"
  proof (cases "k' = k")
    case True
    from that obtain w where "map_of (hot h) k = Some w"
      using bt_keys_map_of by blast
    with True assms(2) show ?thesis by (simp add: overwrites_hot_def)
  next
    case False
    with that assms(1) show ?thesis by (simp add: same_payload_def)
  qed
  with False show ?thesis
    by (simp add: hc_insert_def same_payload_def map_of_bt_insert)
qed

lemma same_payload_search:
  assumes "same_payload h k"
  shows "same_payload (snd (hc_search m h k' r)) k"
proof (cases "hot (snd (hc_search m h k' r)) = hot h")
  case True
  with assms show ?thesis by (simp add: same_payload_def hc_search_fields)
next
  case False
  then have e: "hot (snd (hc_search m h k' r)) =
      bt_insert (hot h) k' (fst (bt_search m (cold h) k'))"
    and c: "fst (bt_search m (cold h) k') \<noteq> NULL"
    by (auto simp: hc_search_hot_eq promotes_def after_adapt_fields split: if_splits)
  from c have "map_of (cold h) k' = Some (fst (bt_search m (cold h) k'))"
    by (rule bt_search_present)
  with assms show ?thesis
    by (auto simp: same_payload_def hc_search_fields e map_of_bt_insert bt_keys_insert)
qed

lemma same_payload_exec:
  assumes "same_payload h k" and "\<not> overwrites_hot k c h"
  shows "same_payload (snd (exec m c h)) k"
proof (cases c)
  case (Insert k' v)
  with assms show ?thesis by (simp add: same_payload_insert)
next
  case (Search k' r)
  with assms(1) show ?thesis by (simp add: snd_exec same_payload_search del: exec.simps)
next
  case (RangeSearch lo hi g)
  with assms(1) show ?thesis
    by (simp add: snd_exec hc_range_search_fields same_payload_def del: exec.simps)
next
  case GetStats
  with assms(1) show ?thesis by simp
qed

lemma never_overwritten_Cons:
  "never_overwritten m k (c # cs) h \<longleftrightarrow>
     \<not> overwrites_hot k c h \<and>
     (fst (exec m c h) = None \<longrightarrow> never_overwritten m k cs (snd (exec m c h)))"
  by (cases "exec m c h") (auto split: option.splits)

lemma same_payload_run:
  "same_payload h k \<Longrightarrow> never_overwritten m k cs h \<Longrightarrow> same_payload (run m cs h) k"
proof (induction cs arbitrary: h)
  case Nil
  then show ?case by simp
next
  case (Cons c cs)
  from Cons.prems have n: "\<not> overwrites_hot k c h"
    and r: "fst (exec m c h) = None \<longrightarrow> never_overwritten m k cs (snd (exec m c h))"
    by (simp_all add: never_overwritten_Cons del: never_overwritten.simps)
  from Cons.prems(1) n have s: "same_payload (snd (exec m c h)) k"
    by (rule same_payload_exec)
  show ?case
  proof (cases "fst (exec m c h) = None")
    case True
    with r s Cons.IH show ?thesis by (simp add: run_Cons del: run.simps)
  next
    case False
    then have "run m (c # cs) h = snd (exec m c h)"
      by (simp only: run_Cons if_False)
    with s show ?thesis by (simp only:)
  qed
qed

lemma same_payload_create: "same_payload (hc_create g mk deg p) k"
  by (simp add: same_payload_def hc_create_def bt_create_def bt_keys_def)

text \<open>
  C1, as amended. In every state reached from \<^verbatim>\<open>hc_create\<close> by any sequence of inserts,
  lookups, range scans and statistics reads, every key of the hot tier is a key of the
  cold tier, and its payload in the hot tier is identical to its payload in the cold tier
  unless an \<^verbatim>\<open>hc_insert\<close> has given that very key a different payload while it was in the
  hot tier: \<^verbatim>\<open>hc_insert\<close> writes the cold tier only.
\<close>

theorem hot_keys_in_cold:
  "bt_keys (hot (run m cs (hc_create g mk deg p))) \<subseteq> bt_keys (cold (run m cs (hc_create g mk deg p)))
   \<and> (\<forall>k. never_overwritten m k cs (hc_create g mk deg p) \<longrightarrow>
          k \<in> bt_keys (hot (run m cs (hc_create g mk deg p))) \<longrightarrow>
          map_of (hot (run m cs (hc_create g mk deg p))) k =
            map_of (cold (run m cs (hc_create g mk deg p))) k)"
proof -
  have "bt_keys (hot (run m cs (hc_create g mk deg p))) \<subseteq>
      bt_keys (cold (run m cs (hc_create g mk deg p)))"
    using hc_inv_reachable [of mk p m cs g deg] by (simp add: hc_inv_def)
  moreover have "map_of (hot (run m cs (hc_create g mk deg p))) k =
      map_of (cold (run m cs (hc_create g mk deg p))) k"
    if "never_overwritten m k cs (hc_create g mk deg p)"
      and "k \<in> bt_keys (hot (run m cs (hc_create g mk deg p)))" for k
    using same_payload_run [OF same_payload_create that(1)] that(2)
    by (simp add: same_payload_def)
  ultimately show ?thesis by blast
qed

theorem hot_keys_in_cold_witness:
  "hot (run exact_unit
      [Insert 4 65, Insert 7 66, Search 4 0, Search 4 0, Search 7 0, Search 7 0, Insert 4 99]
      (hc_create True 9 4 example_params)) = [(4, 65), (7, 66)]
   \<and> cold (run exact_unit
      [Insert 4 65, Insert 7 66, Search 4 0, Search 4 0, Search 7 0, Search 7 0, Insert 4 99]
      (hc_create True 9 4 example_params)) = [(4, 99), (7, 66)]
   \<and> never_overwritten exact_unit 7
      [Insert 4 65, Insert 7 66, Search 4 0, Search 4 0, Search 7 0, Search 7 0, Insert 4 99]
      (hc_create True 9 4 example_params)
   \<and> \<not> never_overwritten exact_unit 4
      [Insert 4 65, Insert 7 66, Search 4 0, Search 4 0, Search 7 0, Search 7 0, Insert 4 99]
      (hc_create True 9 4 example_params)
   \<and> map_of (hot (run exact_unit
      [Insert 4 65, Insert 7 66, Search 4 0, Search 4 0, Search 7 0, Search 7 0, Insert 4 99]
      (hc_create True 9 4 example_params))) 7 =
     map_of (cold (run exact_unit
      [Insert 4 65, Insert 7 66, Search 4 0, Search 4 0, Search 7 0, Search 7 0, Insert 4 99]
      (hc_create True 9 4 example_params))) 7"
  using hot_keys_in_cold [of exact_unit
      "[Insert 4 65, Insert 7 66, Search 4 0, Search 4 0, Search 7 0, Search 7 0, Insert 4 99]"
      True 9 4 example_params]
  by (simp add: example_defs overwrites_hot_def)

text \<open>
  The claim as first stated fails: after key 42 has been promoted with payload 65, a second
  \<^verbatim>\<open>hc_insert(42, 66)\<close> replaces the payload in the cold tier and leaves 65 in the hot
  tier.
\<close>

theorem stale_hot_payload:
  "map_of (hot (run exact_unit [Insert 42 65, Search 42 0, Search 42 0, Insert 42 66]
      (hc_create True 99 4 example_params))) 42 = Some 65
   \<and> map_of (cold (run exact_unit [Insert 42 65, Search 42 0, Search 42 0, Insert 42 66]
      (hc_create True 99 4 example_params))) 42 = Some 66"
  by (simp add: example_defs)

section \<open>The domain guard\<close>

lemma hc_search_miss:
  assumes "fst (bt_search m (hot h) k) = NULL" and "fst (bt_search m (cold h) k) = NULL"
  shows "hc_search m h k r =
     (Inr NULL, (after_adapt m h)\<lparr>stats := (stats h)
        \<lparr>queries := queries (stats h) + 1,
         hot_node_visits := hot_node_visits (stats h) + int (search_visits m (hot h) k),
         cold_node_visits := cold_node_visits (stats h) + int (search_visits m (cold h) k),
         not_found := not_found (stats h) + 1\<rparr>\<rparr>)"
  using assms
  unfolding hc_search_def after_adapt_def [symmetric] Let_def case_prod_beta
  by (simp add: after_adapt_fields after_adapt_stats) (simp add: bt_search_def)

lemma hc_search_outside:
  assumes "k < 0 \<or> k > max_key h"
  shows "hit_score (snd (hc_search m h k r)) = hit_score h"
    and "hot (snd (hc_search m h k r)) = hot h"
  using assms
  unfolding hc_search_def after_adapt_def [symmetric] Let_def case_prod_beta
  by (auto simp: after_adapt_fields)

text \<open>
  C2, as amended. For a key outside \<open>[0, max_key]\<close>, in any reachable state:
  \<^verbatim>\<open>hc_insert\<close> reports the key as out of range and changes nothing at all;
  \<^verbatim>\<open>hc_search\<close> leaves the hot tier, the cold tier and the scores as they are, but makes
  no out-of-range report: it answers as for any absent key, returning \<^verbatim>\<open>NULL\<close> and
  counting one more query and one more \<open>not_found\<close>.
\<close>

theorem out_of_range_guard:
  assumes "k < 0 \<or> k > mk"
  shows "hc_insert (run m cs (hc_create g mk deg p)) k v =
           (Some (OutOfRange k mk), run m cs (hc_create g mk deg p))
       \<and> hot (snd (hc_search m (run m cs (hc_create g mk deg p)) k r)) =
           hot (run m cs (hc_create g mk deg p))
       \<and> cold (snd (hc_search m (run m cs (hc_create g mk deg p)) k r)) =
           cold (run m cs (hc_create g mk deg p))
       \<and> hit_score (snd (hc_search m (run m cs (hc_create g mk deg p)) k r)) =
           hit_score (run m cs (hc_create g mk deg p))
       \<and> fst (hc_search m (run m cs (hc_create g mk deg p)) k r) = Inr NULL
       \<and> queries (stats (snd (hc_search m (run m cs (hc_create g mk deg p)) k r))) =
           queries (stats (run m cs (hc_create g mk deg p))) + 1
       \<and> not_found (stats (snd (hc_search m (run m cs (hc_create g mk deg p)) k r))) =
           not_found (stats (run m cs (hc_create g mk deg p))) + 1"
proof -
  let ?s = "run m cs (hc_create g mk deg p)"
  have inv: "hc_inv mk p ?s" by (rule hc_inv_reachable)
  then have mk: "max_key ?s = mk" by (simp add: hc_inv_def)
  from inv assms have "k \<notin> bt_keys (cold ?s)" "k \<notin> bt_keys (hot ?s)"
    by (auto simp: hc_inv_def)
  then have miss: "fst (bt_search m (hot ?s) k) = NULL" "fst (bt_search m (cold ?s) k) = NULL"
    by (simp_all add: bt_search_absent)
  have ins: "hc_insert ?s k v = (Some (OutOfRange k mk), ?s)"
    using assms mk by (simp add: hc_insert_def)
  have out: "hit_score (snd (hc_search m ?s k r)) = hit_score ?s"
    "hot (snd (hc_search m ?s k r)) = hot ?s"
    using assms mk by (simp_all add: hc_search_outside)
  show ?thesis
    using ins out by (simp add: hc_search_fields) (simp add: hc_search_miss [OF miss])
qed

theorem out_of_range_guard_witness:
  "((10::int) < 0 \<or> (10::int) > 9)
   \<and> hc_insert (run exact_unit [Insert 4 65, Search 4 0] (hc_create True 9 4 example_params)) 10 66 =
     (Some (OutOfRange 10 9),
      run exact_unit [Insert 4 65, Search 4 0] (hc_create True 9 4 example_params))
   \<and> fst (hc_search exact_unit
         (run exact_unit [Insert 4 65, Search 4 0] (hc_create True 9 4 example_params)) 10 0) =
       Inr NULL
   \<and> not_found (stats (snd (hc_search exact_unit
         (run exact_unit [Insert 4 65, Search 4 0] (hc_create True 9 4 example_params)) 10 0))) = 1"
  using out_of_range_guard [of 10 9 exact_unit "[Insert 4 65, Search 4 0]" True 4 example_params 66 0]
  by (simp add: example_defs)

text \<open>
  The claim as first stated fails for \<^verbatim>\<open>hc_search\<close>: a lookup of the key \<open>-1\<close>, outside
  \<open>[0, 9]\<close>, has the very outcome of a lookup of the absent key 7 inside it: \<^verbatim>\<open>NULL\<close>
  and one more \<open>not_found\<close>.
\<close>

theorem out_of_range_search_is_plain_miss:
  "hc_search exact_unit (run exact_unit [Insert 4 65] (hc_create True 9 4 example_params)) (- 1) 0 =
   hc_search exact_unit (run exact_unit [Insert 4 65] (hc_create True 9 4 example_params)) 7 0
   \<and> fst (hc_search exact_unit
        (run exact_unit [Insert 4 65] (hc_create True 9 4 example_params)) (- 1) 0) = Inr NULL
   \<and> not_found (stats (snd (hc_search exact_unit
        (run exact_unit [Insert 4 65] (hc_create True 9 4 example_params)) (- 1) 0))) = 1"
  by (simp add: example_defs)

section \<open>The sampling-rate adapter\<close>

lemma warm_first:
  "run exact_unit (Insert 1 7 # Search 1 0 # cs) (hc_create True 9 4 adaptive_params) =
   run exact_unit cs (warm 1)"
  by (simp add: example_defs adaptive_params_def warm_def)

lemma warm_step:
  assumes "1 \<le> n" and "n < 4999"
  shows "exec exact_unit (Search 1 0) (warm n) = (None, warm (Suc n))"
  using assms
  by (simp add: hc_search_def hc_maybe_adapt_sampling_def bt_search_def NULL_def MIN_DELTA_Q_def
      exact_unit_def adaptive_params_def warm_def dadd_def dmul_def Let_def)

lemma warm_run:
  "1 \<le> n \<Longrightarrow> n + j \<le> 4999 \<Longrightarrow>
   run exact_unit (replicate j (Search 1 0) @ cs) (warm n) = run exact_unit cs (warm (n + j))"
proof (induction j arbitrary: n)
  case 0
  then show ?case by simp
next
  case (Suc j)
  from Suc.prems have "exec exact_unit (Search 1 0) (warm n) = (None, warm (Suc n))"
    by (intro warm_step) simp_all
  with Suc.IH [of "Suc n"] Suc.prems show ?case
    by (simp add: run_Cons del: run.simps exec.simps)
qed

lemma busy_run:
  "run exact_unit (Insert 1 7 # replicate 4999 (Search 1 0) @ Insert 2 8 # cs)
     (hc_create True 9 4 adaptive_params) =
   run exact_unit cs ((warm 4999)\<lparr>cold := [(1, 7), (2, 8)]\<rparr>)"
proof -
  have "replicate 4999 (Search 1 0) = Search 1 0 # replicate 4998 (Search 1 0)"
    by (simp add: replicate_Suc [symmetric] del: replicate_Suc)
  then have "run exact_unit (Insert 1 7 # replicate 4999 (Search 1 0) @ Insert 2 8 # cs)
     (hc_create True 9 4 adaptive_params) =
     run exact_unit (replicate 4998 (Search 1 0) @ Insert 2 8 # cs) (warm 1)"
    by (simp only: append_Cons warm_first)
  also have "\<dots> = run exact_unit (Insert 2 8 # cs) (warm 4999)"
    using warm_run [of 1 4998 "Insert 2 8 # cs"] by simp
  also have "\<dots> = run exact_unit cs ((warm 4999)\<lparr>cold := [(1, 7), (2, 8)]\<rparr>)"
    by (simp add: hc_insert_def warm_def)
  finally show ?thesis .
qed

lemma busy_index_eq: "busy_index = (warm 4999)\<lparr>cold := [(1, 7), (2, 8)]\<rparr>"
  unfolding busy_index_def using busy_run [of "[]"] by simp

lemma after_adapt_rate_bounds:
  "0 \<le> sampling_rate (params h) \<Longrightarrow> sampling_rate (params h) \<le> 1 \<Longrightarrow>
   0 \<le> sampling_rate (params (after_adapt m h)) \<and> sampling_rate (params (after_adapt m h)) \<le> 1"
  unfolding after_adapt_def by (rule adapt_rate_bounds) simp_all

lemma exec_rate_bounds:
  assumes "0 \<le> sampling_rate (params h) \<and> sampling_rate (params h) \<le> 1"
  shows "0 \<le> sampling_rate (params (snd (exec m c h))) \<and>
         sampling_rate (params (snd (exec m c h))) \<le> 1"
proof (cases c)
  case (Insert k v)
  with assms show ?thesis by (simp add: hc_insert_def)
next
  case (Search k r)
  with assms show ?thesis
    by (simp add: snd_exec hc_search_rate after_adapt_rate_bounds del: exec.simps)
next
  case (RangeSearch lo hi g)
  with assms show ?thesis by (simp add: snd_exec hc_range_search_fields del: exec.simps)
next
  case GetStats
  with assms show ?thesis by simp
qed

text \<open>
  C6. If the configured sampling rate lies in \<open>[0, 1]\<close>, it lies in \<open>[0, 1]\<close> after any
  sequence of calls, so after any number of lookups and of adaptation steps.
\<close>

theorem sampling_rate_stays_in_unit_interval:
  assumes "0 \<le> sampling_rate p" and "sampling_rate p \<le> 1"
  shows "0 \<le> sampling_rate (params (run m cs (hc_create g mk deg p)))
       \<and> sampling_rate (params (run m cs (hc_create g mk deg p))) \<le> 1"
proof (rule run_invariant [where P = "\<lambda>h. 0 \<le> sampling_rate (params h) \<and> sampling_rate (params h) \<le> 1"])
  show "0 \<le> sampling_rate (params (hc_create g mk deg p)) \<and>
      sampling_rate (params (hc_create g mk deg p)) \<le> 1"
    using assms by (simp add: hc_create_def)
qed (rule exec_rate_bounds)

theorem sampling_rate_stays_in_unit_interval_witness:
  "0 \<le> sampling_rate adaptive_params \<and> sampling_rate adaptive_params \<le> 1
   \<and> sampling_rate (params (run exact_unit
         (Insert 1 7 # replicate 4999 (Search 1 0) @ [Insert 2 8, Search 2 0])
         (hc_create True 9 4 adaptive_params))) = 19 / 20"
proof -
  have b: "0 \<le> sampling_rate adaptive_params" "sampling_rate adaptive_params \<le> 1"
    by (simp_all add: adaptive_params_def)
  have "run exact_unit (Insert 1 7 # replicate 4999 (Search 1 0) @ [Insert 2 8, Search 2 0])
          (hc_create True 9 4 adaptive_params) =
        snd (exec exact_unit (Search 2 0) ((warm 4999)\<lparr>cold := [(1, 7), (2, 8)]\<rparr>))"
    by (simp only: busy_run run_single)
  also have "sampling_rate (params \<dots>) = 19 / 20"
    by (simp add: snd_exec warm_def hc_search_rate after_adapt_def exact_unit_def
        hc_maybe_adapt_sampling_def MIN_DELTA_Q_def adaptive_params_def Let_def
        dadd_def dsub_def dmul_def ddiv_def dcast_def dlit_def del: exec.simps)
  finally show ?thesis
    using b sampling_rate_stays_in_unit_interval [OF b, of exact_unit
        "Insert 1 7 # replicate 4999 (Search 1 0) @ [Insert 2 8, Search 2 0]" True 9 4]
    by simp
qed

text \<open>
  C7. An adaptation after the first one, the rate having moved by at least \<open>1e-9\<close> since
  the previous one, follows the decision rule of the specification on \<open>dC\<close> and \<open>dD\<close>, all
  of it in the arithmetic of \<^verbatim>\<open>double\<close>, clamps the result to \<open>[0, 1]\<close> and commits it;
  it records the rate before the update, the cost and the query count. With \<open>dC = 0\<close> the
  rule leaves \<open>D\<close> as it is. Of the rounding it is used that \<open>0\<close> rounds to \<open>0\<close> and that
  the literal \<^verbatim>\<open>1e-9\<close> is positive.
\<close>

theorem adapt_follows_decision_rule:
  assumes "adapt_sampling (params h)"
    and "queries (stats h) - last_q_for_adapt h \<ge> MIN_DELTA_Q"
    and "last_q_for_adapt h \<noteq> 0"
    and "\<bar>adapt_dD m h\<bar> \<ge> dlit m (1 / 10 ^ 9)"
    and "0 < dlit m (1 / 10 ^ 9)" and "fl m 0 = 0"
  shows "hc_maybe_adapt_sampling m h =
           h\<lparr>last_D := sampling_rate (params h),
             last_cost := adapt_cost m h,
             last_q_for_adapt := queries (stats h),
             params := (params h)\<lparr>sampling_rate :=
               clamp01 (spec_decision m (sampling_rate (params h))
                          (adapt_dC m h) (adapt_dD m h))\<rparr>\<rparr>
       \<and> (adapt_dC m h = 0 \<longrightarrow>
            spec_decision m (sampling_rate (params h)) (adapt_dC m h) (adapt_dD m h) =
              sampling_rate (params h))"
proof -
  from assms(4,5) have nz: "adapt_dD m h \<noteq> 0" by auto
  have sg: "sgn (adapt_dD m h) = (if adapt_dD m h > 0 then 1 else - 1)"
    using nz by (simp add: sgn_if)
  have a: "\<not> \<bar>adapt_dD m h\<bar> < dlit m (1 / 10 ^ 9)"
    using assms(4) by simp
  have b: "\<not> queries (stats h) - last_q_for_adapt h < MIN_DELTA_Q"
    using assms(2) by simp
  have c: "spec_decision m D 0 dD = D" for D dD
    by (simp add: spec_decision_def dmul_def assms(6))
  have "hc_maybe_adapt_sampling m h =
           h\<lparr>last_D := sampling_rate (params h),
             last_cost := adapt_cost m h,
             last_q_for_adapt := queries (stats h),
             params := (params h)\<lparr>sampling_rate :=
               clamp01 (spec_decision m (sampling_rate (params h))
                          (adapt_dC m h) (adapt_dD m h))\<rparr>\<rparr>"
    unfolding hc_maybe_adapt_sampling_def Let_def
      adapt_cost_def [symmetric] adapt_dC_def [symmetric] adapt_dD_def [symmetric]
    using assms(1,3) a b
    by (simp add: spec_decision_def clamp01_def sg)
  then show ?thesis by (simp add: c)
qed

theorem adapt_follows_decision_rule_witness:
  "adapt_sampling (params second_adaptation)
   \<and> queries (stats second_adaptation) - last_q_for_adapt second_adaptation \<ge> MIN_DELTA_Q
   \<and> last_q_for_adapt second_adaptation \<noteq> 0
   \<and> \<bar>adapt_dD exact_unit second_adaptation\<bar> \<ge> dlit exact_unit (1 / 10 ^ 9)
   \<and> 0 < dlit exact_unit (1 / 10 ^ 9) \<and> fl exact_unit 0 = 0
   \<and> adapt_dC exact_unit second_adaptation = 1 / 2
   \<and> adapt_dD exact_unit second_adaptation = - (1 / 20)
   \<and> hc_maybe_adapt_sampling exact_unit second_adaptation =
        second_adaptation\<lparr>last_D := 19 / 20, last_cost := 3 / 2,
          last_q_for_adapt := 10000,
          params := adaptive_params\<lparr>sampling_rate := 9 / 10\<rparr>\<rparr>
   \<and> adapt_dC exact_unit (second_adaptation\<lparr>last_cost := 3 / 2\<rparr>) = 0
   \<and> hc_maybe_adapt_sampling exact_unit (second_adaptation\<lparr>last_cost := 3 / 2\<rparr>) =
        second_adaptation\<lparr>last_D := 19 / 20, last_cost := 3 / 2,
          last_q_for_adapt := 10000\<rparr>"
proof -
  let ?h = "second_adaptation\<lparr>last_cost := 3 / 2\<rparr>"
  note ev = second_adaptation_def adaptive_params_def MIN_DELTA_Q_def exact_unit_def
    adapt_cost_def adapt_dC_def adapt_dD_def dadd_def dsub_def dmul_def ddiv_def dcast_def dlit_def
  have h: "adapt_sampling (params second_adaptation)"
    "queries (stats second_adaptation) - last_q_for_adapt second_adaptation \<ge> MIN_DELTA_Q"
    "last_q_for_adapt second_adaptation \<noteq> 0"
    "\<bar>adapt_dD exact_unit second_adaptation\<bar> \<ge> dlit exact_unit (1 / 10 ^ 9)"
    "0 < dlit exact_unit (1 / 10 ^ 9)" "fl exact_unit 0 = 0"
    by (simp_all add: ev)
  have h': "adapt_sampling (params ?h)"
    "queries (stats ?h) - last_q_for_adapt ?h \<ge> MIN_DELTA_Q"
    "last_q_for_adapt ?h \<noteq> 0"
    "\<bar>adapt_dD exact_unit ?h\<bar> \<ge> dlit exact_unit (1 / 10 ^ 9)"
    by (simp_all add: ev)
  have v: "adapt_dC exact_unit second_adaptation = 1 / 2"
    "adapt_dD exact_unit second_adaptation = - (1 / 20)"
    "adapt_dC exact_unit ?h = 0" "adapt_dD exact_unit ?h = - (1 / 20)"
    "adapt_cost exact_unit second_adaptation = 3 / 2" "adapt_cost exact_unit ?h = 3 / 2"
    by (simp_all add: ev)
  show ?thesis
    using h adapt_follows_decision_rule [OF h] adapt_follows_decision_rule [OF h' h(5,6)]
    by (simp add: v) (simp add: second_adaptation_def adaptive_params_def spec_decision_def
        clamp01_def exact_unit_def dadd_def dsub_def dmul_def dlit_def)
qed

section \<open>Promotion at full sampling\<close>

lemma clamp01_one: "clamp01 1 = 1"
  by (simp add: clamp01_def)

lemma draw_le_one:
  assumes "rounding_ok m" and "r \<le> RAND_MAX"
  shows "draw m r \<le> 1"
proof -
  from assms(1) have mono: "\<And>x y. x \<le> y \<Longrightarrow> fl m x \<le> fl m y"
    and idem: "\<And>x. fl m (fl m x) = fl m x" and z: "fl m 0 = 0" and o: "fl m 1 = 1"
    by (simp_all add: rounding_ok_def fl_mono_def)
  let ?a = "fl m (real r)" and ?c = "fl m (real RAND_MAX)"
  let ?b = "fl m (?c + 1)"
  have "fl m 0 \<le> ?c" by (rule mono) simp
  then have c0: "0 \<le> ?c" by (simp add: z)
  then have "fl m 1 \<le> ?b" by (intro mono) simp
  then have b1: "1 \<le> ?b" by (simp add: o)
  have "?a \<le> ?c" using assms(2) by (intro mono) simp
  also have "?c = fl m ?c" by (simp add: idem)
  also have "\<dots> \<le> ?b" by (rule mono) simp
  finally have "?a \<le> ?b" .
  with b1 have "?a / ?b \<le> 1" by simp
  then have "fl m (?a / ?b) \<le> fl m 1" by (rule mono)
  then show ?thesis
    by (simp add: draw_def ddiv_def dadd_def dcast_def o)
qed

lemma adapter_idle:
  "\<not> adapt_sampling (params h) \<or> queries (stats h) + 1 - last_q_for_adapt h < MIN_DELTA_Q \<Longrightarrow>
   sampling_rate (params (after_adapt m h)) = sampling_rate (params h)"
  by (auto simp: after_adapt_def hc_maybe_adapt_sampling_def Let_def)

lemma max_hot_after_adapt: "max_hot m (after_adapt m h) = max_hot m h"
  by (simp add: max_hot_def after_adapt_fields)

lemma hc_search_cold_hit:
  assumes "fst (bt_search m (hot h) k) = NULL" and "fst (bt_search m (cold h) k) \<noteq> NULL"
    and "0 \<le> k" and "k \<le> max_key h" and "nat k < length (hit_score h)"
  shows "fst (hc_search m h k r) = Inr (fst (bt_search m (cold h) k))"
  using assms
  unfolding hc_search_def after_adapt_def [symmetric] Let_def case_prod_beta
  by (simp add: after_adapt_fields)

text \<open>
  C4, as amended. Let the sampling rate be \<open>1.0\<close> when the promotion gate is reached,
  that is after the adaptation step that \<^verbatim>\<open>hc_search\<close> runs first (as it is when the rate
  is \<open>1.0\<close> before the call and the adapter is off or fewer than 5000 queries have been
  counted since its last step), let \<open>inclusive\<close> be set and the number of hot keys be below
  the capacity bound, both as the code has them in \<^verbatim>\<open>double\<close>. Then a lookup of an
  in-domain key that the cold tier holds with a payload other than \<^verbatim>\<open>NULL\<close> and the hot
  tier does not hold, whose score cell exists and whose updated score, as the code computes
  it, reaches \<open>hot_threshold\<close>, returns the payload and inserts the key with it into the hot
  tier in that very call, whatever \<^verbatim>\<open>rand()\<close> returns.
\<close>

theorem full_sampling_promotes:
  assumes "rounding_ok m"
    and "r \<le> RAND_MAX"
    and "sampling_rate (params (after_adapt m h)) = 1"
    and "inclusive (params h)"
    and "dcast m (int (bt_count_keys (hot h))) < max_hot m h"
    and "0 \<le> k" and "k \<le> max_key h"
    and "nat k < length (hit_score h)"
    and "fst (bt_search m (cold h) k) \<noteq> NULL"
    and "k \<notin> bt_keys (hot h)"
    and "hot_threshold (params h) \<le> new_score m h k"
  shows "hot (snd (hc_search m h k r)) = bt_insert (hot h) k (fst (bt_search m (cold h) k))
       \<and> map_of (hot (snd (hc_search m h k r))) k = map_of (cold h) k
       \<and> fst (hc_search m h k r) = Inr (fst (bt_search m (cold h) k))"
proof -
  have u: "\<not> draw m r > clamp01 (sampling_rate (params (after_adapt m h)))"
    using draw_le_one [OF assms(1,2)] by (simp only: assms(3) clamp01_one not_less)
  have absent: "fst (bt_search m (hot h) k) = NULL"
    using assms(10) by (rule bt_search_absent)
  have cap: "\<not> dcast m (int (bt_count_keys (hot (after_adapt m h)))) \<ge> max_hot m (after_adapt m h)"
    using assms(5) by (simp add: max_hot_after_adapt after_adapt_fields)
  have "promotes m (after_adapt m h) k r"
    unfolding promotes_def using u absent cap assms(4,9)
    by (simp add: after_adapt_fields)
  with assms(6,7,8,11) have e: "hot (snd (hc_search m h k r)) =
      bt_insert (hot h) k (fst (bt_search m (cold h) k))"
    by (simp add: hc_search_hot_eq)
  have "map_of (cold h) k = Some (fst (bt_search m (cold h) k))"
    using assms(9) by (rule bt_search_present)
  then have mp: "map_of (hot (snd (hc_search m h k r))) k = map_of (cold h) k"
    by (simp add: e map_of_bt_insert)
  have "fst (hc_search m h k r) = Inr (fst (bt_search m (cold h) k))"
    using absent assms(9,6,7,8) by (rule hc_search_cold_hit)
  with e mp show ?thesis by simp
qed

theorem full_sampling_promotes_witness:
  "rounding_ok exact_unit \<and> RAND_MAX \<le> RAND_MAX
   \<and> sampling_rate (params (after_adapt exact_unit (warm 7\<lparr>cold := [(1, 7), (2, 8)]\<rparr>))) = 1
   \<and> inclusive (params (warm 7\<lparr>cold := [(1, 7), (2, 8)]\<rparr>))
   \<and> dcast exact_unit (int (bt_count_keys (hot (warm 7\<lparr>cold := [(1, 7), (2, 8)]\<rparr>)))) <
       max_hot exact_unit (warm 7\<lparr>cold := [(1, 7), (2, 8)]\<rparr>)
   \<and> 2 \<notin> bt_keys (hot (warm 7\<lparr>cold := [(1, 7), (2, 8)]\<rparr>))
   \<and> hot_threshold (params (warm 7\<lparr>cold := [(1, 7), (2, 8)]\<rparr>)) \<le>
       new_score exact_unit (warm 7\<lparr>cold := [(1, 7), (2, 8)]\<rparr>) 2
   \<and> hot (snd (hc_search exact_unit (warm 7\<lparr>cold := [(1, 7), (2, 8)]\<rparr>) 2 RAND_MAX)) =
        [(1, 7), (2, 8)]"
proof -
  let ?h = "warm 7\<lparr>cold := [(1, 7), (2, 8)]\<rparr>"
  note ev = warm_def adaptive_params_def bt_count_keys_def size_t_of_def bt_search_def NULL_def
    bt_keys_def max_hot_def new_score_def exact_unit_def dadd_def dmul_def dcast_def
  have a: "sampling_rate (params (after_adapt exact_unit ?h)) = 1"
    by (simp add: adapter_idle warm_def adaptive_params_def MIN_DELTA_Q_def)
  have b: "inclusive (params ?h)"
    "dcast exact_unit (int (bt_count_keys (hot ?h))) < max_hot exact_unit ?h"
    "(0::int) \<le> 2" "2 \<le> max_key ?h" "nat 2 < length (hit_score ?h)"
    "fst (bt_search exact_unit (cold ?h) 2) \<noteq> NULL"
    "2 \<notin> bt_keys (hot ?h)"
    "hot_threshold (params ?h) \<le> new_score exact_unit ?h 2"
    by (simp_all add: ev)
  show ?thesis
    using a b rounding_ok_exact(1)
      full_sampling_promotes [OF rounding_ok_exact(1) order_refl a b]
    by (simp add: warm_def bt_search_def)
qed

text \<open>
  The claim as first stated fails at the lookup that triggers an adaptation. In
  \<open>busy_index\<close> the rate is \<open>1.0\<close>, the hot tier holds one key of ten, key 2 is in the
  cold tier only and its first hit reaches the threshold. The lookup of key 2 is query
  number 5000: the adapter runs first and, the hot-hit fraction being above \<open>0.6\<close>, lowers
  the rate to \<open>0.95\<close>; with the draw \<^verbatim>\<open>RAND_MAX\<close> the key is sampled out and stays
  cold.
\<close>

theorem adaptation_defeats_full_sampling:
  "sampling_rate (params busy_index) = 1
   \<and> inclusive (params busy_index)
   \<and> dcast exact_unit (int (bt_count_keys (hot busy_index))) < max_hot exact_unit busy_index
   \<and> 0 \<le> (2::int) \<and> 2 \<le> max_key busy_index
   \<and> nat 2 < length (hit_score busy_index)
   \<and> map_of (cold busy_index) 2 = Some 8
   \<and> 2 \<notin> bt_keys (hot busy_index)
   \<and> hot_threshold (params busy_index) \<le> new_score exact_unit busy_index 2
   \<and> fst (hc_search exact_unit busy_index 2 RAND_MAX) = Inr 8
   \<and> 2 \<notin> bt_keys (hot (snd (hc_search exact_unit busy_index 2 RAND_MAX)))"
  unfolding busy_index_eq
  by (simp add: warm_def adaptive_params_def bt_count_keys_def size_t_of_def bt_keys_def
      hc_search_def hc_maybe_adapt_sampling_def maybe_promote_def bt_search_def NULL_def
      MIN_DELTA_Q_def RAND_MAX_def exact_unit_def max_hot_def new_score_def
      dadd_def dsub_def dmul_def ddiv_def dcast_def dlit_def Let_def)

section \<open>The capacity of the hot tier\<close>

lemma max_hot_exact:
  assumes "fl m (real (size_t_of (max_key h + 1))) = real (size_t_of (max_key h + 1))"
  shows "max_hot m h = fl m (max_hot_fraction (params h) * real (size_t_of (max_key h + 1)))"
  using assms by (simp add: max_hot_def dmul_def dcast_def)

lemma below_rounded_bound:
  assumes "fl_mono m" and "\<not> fl m x \<ge> fl m y"
  shows "x < y"
proof (rule ccontr)
  assume "\<not> x < y"
  then have "y \<le> x" by simp
  with assms(1) have "fl m y \<le> fl m x" by (simp add: fl_mono_def)
  with assms(2) show False by simp
qed

lemma promotes_below_capacity:
  assumes "fl_mono m"
    and "fl m (real (size_t_of (max_key h + 1))) = real (size_t_of (max_key h + 1))"
    and "promotes m h k r"
  shows "real (bt_count_keys (hot h)) <
      max_hot_fraction (params h) * real (size_t_of (max_key h + 1))"
proof -
  from assms(3) have "\<not> fl m (real (bt_count_keys (hot h))) \<ge>
      fl m (max_hot_fraction (params h) * real (size_t_of (max_key h + 1)))"
    by (simp add: promotes_def max_hot_exact [OF assms(2)] dcast_def)
  with assms(1) show ?thesis by (rule below_rounded_bound)
qed

lemma at_capacity_no_promotion:
  assumes "fl_mono m"
    and "fl m (real (size_t_of (max_key h + 1))) = real (size_t_of (max_key h + 1))"
    and "max_hot_fraction (params h) * real (size_t_of (max_key h + 1)) \<le>
      real (bt_count_keys (hot h))"
  shows "\<not> promotes m h k r"
proof -
  from assms(1,3) have "fl m (max_hot_fraction (params h) * real (size_t_of (max_key h + 1))) \<le>
      fl m (real (bt_count_keys (hot h)))"
    by (simp add: fl_mono_def)
  then show ?thesis
    by (simp add: promotes_def max_hot_exact [OF assms(2)] dcast_def)
qed

lemma hc_search_hot_count:
  assumes "fl_mono m"
    and "fl m (real (size_t_of (max_key h + 1))) = real (size_t_of (max_key h + 1))"
    and "real (bt_count_keys (hot h)) <
      max_hot_fraction (params h) * real (size_t_of (max_key h + 1)) + 1"
  shows "real (bt_count_keys (hot (snd (hc_search m h k r)))) <
      max_hot_fraction (params h) * real (size_t_of (max_key h + 1)) + 1"
proof (cases "hot (snd (hc_search m h k r)) = hot h")
  case True
  with assms(3) show ?thesis by simp
next
  case False
  then have e: "hot (snd (hc_search m h k r)) = bt_insert (hot h) k (fst (bt_search m (cold h) k))"
    and c: "promotes m (after_adapt m h) k r"
    by (auto simp: hc_search_hot_eq split: if_splits)
  have "fl m (real (size_t_of (max_key (after_adapt m h) + 1))) =
      real (size_t_of (max_key (after_adapt m h) + 1))"
    using assms(2) by (simp add: after_adapt_fields)
  from promotes_below_capacity [OF assms(1) this c]
  have "real (length (hot h)) <
      max_hot_fraction (params h) * real (size_t_of (max_key h + 1))"
    by (simp add: after_adapt_fields bt_count_keys_def)
  moreover have "real (length (bt_insert (hot h) k (fst (bt_search m (cold h) k)))) \<le>
      real (length (hot h)) + 1"
    using length_bt_insert_le [of "hot h" k "fst (bt_search m (cold h) k)"] by linarith
  ultimately show ?thesis by (simp add: e bt_count_keys_def)
qed

lemma exec_capacity_fields:
  "max_hot_fraction (params (snd (exec m c h))) = max_hot_fraction (params h)"
  "max_key (snd (exec m c h)) = max_key h"
  by (cases c; simp add: snd_exec hc_insert_def hc_search_params hc_search_fields
      hc_range_search_fields del: exec.simps)+

lemma exec_hot_count:
  assumes "fl_mono m"
    and "fl m (real (size_t_of (max_key h + 1))) = real (size_t_of (max_key h + 1))"
    and "real (bt_count_keys (hot h)) <
      max_hot_fraction (params h) * real (size_t_of (max_key h + 1)) + 1"
  shows "real (bt_count_keys (hot (snd (exec m c h)))) <
      max_hot_fraction (params h) * real (size_t_of (max_key h + 1)) + 1"
proof (cases c)
  case (Insert k v)
  with assms(3) show ?thesis by (simp add: hc_insert_def)
next
  case (Search k r)
  with hc_search_hot_count [OF assms] show ?thesis by (simp add: snd_exec del: exec.simps)
next
  case (RangeSearch lo hi g)
  with assms(3) show ?thesis by (simp add: snd_exec hc_range_search_fields del: exec.simps)
next
  case GetStats
  with assms(3) show ?thesis by simp
qed

lemma exec_hot_grows:
  "bt_keys (hot h) \<subseteq> bt_keys (hot (snd (exec m c h))) \<and>
   bt_count_keys (hot h) \<le> bt_count_keys (hot (snd (exec m c h)))"
proof (cases c)
  case (Insert k v)
  then show ?thesis by (simp add: hc_insert_def)
next
  case (Search k r)
  then show ?thesis
    by (auto simp: snd_exec hc_search_hot_eq bt_keys_insert bt_count_keys_def length_bt_insert_ge
        simp del: exec.simps)
next
  case (RangeSearch lo hi g)
  then show ?thesis by (simp add: snd_exec hc_range_search_fields del: exec.simps)
next
  case GetStats
  then show ?thesis by simp
qed

lemma below_next_integer:
  fixes x :: real
  assumes "real n < x + 1" and "x \<in> \<int>"
  shows "real n \<le> x"
proof -
  from assms(2) obtain z :: int where x: "x = of_int z" by (auto elim: Ints_cases)
  from assms(1) have "real_of_int (int n) < real_of_int (z + 1)" by (simp add: x)
  then have "int n < z + 1" by (simp only: of_int_less_iff)
  then have "int n \<le> z" by simp
  then have "real_of_int (int n) \<le> real_of_int z" by (simp only: of_int_le_iff)
  then show ?thesis by (simp add: x)
qed

text \<open>
  C3, as amended. Let \<open>max_hot_fraction\<close> be non-negative. In every reachable state the
  number of keys in the hot tier is below \<open>max_hot_fraction \<times> (max_key + 1) + 1\<close>: the
  bound is checked before a promotion, not after, so the count may pass a fractional bound
  by less than one key, and it never exceeds a bound that is a whole number. Once the count
  has reached the bound, \<^verbatim>\<open>maybe_promote\<close> inserts nothing and a lookup leaves the hot
  tier as it is, whatever the score of the key. No call removes a key from the hot tier.
  The code compares in \<^verbatim>\<open>double\<close>; the statement holds of it because rounding is
  monotone, the number of keys of the domain being a value of the format (as every count
  up to \<open>2^53\<close> is).
\<close>

theorem hot_tier_capacity:
  assumes "0 \<le> max_hot_fraction p"
    and "fl_mono m"
    and "fl m (real (size_t_of (mk + 1))) = real (size_t_of (mk + 1))"
  shows "real (bt_count_keys (hot (run m cs (hc_create g mk deg p)))) <
           max_hot_fraction p * real (size_t_of (mk + 1)) + 1
       \<and> (max_hot_fraction p * real (size_t_of (mk + 1)) \<in> \<int> \<longrightarrow>
            real (bt_count_keys (hot (run m cs (hc_create g mk deg p)))) \<le>
              max_hot_fraction p * real (size_t_of (mk + 1)))
       \<and> (max_hot_fraction p * real (size_t_of (mk + 1)) \<le>
              real (bt_count_keys (hot (run m cs (hc_create g mk deg p)))) \<longrightarrow>
            maybe_promote m (run m cs (hc_create g mk deg p)) k r = run m cs (hc_create g mk deg p)
            \<and> hot (snd (hc_search m (run m cs (hc_create g mk deg p)) k r)) =
                hot (run m cs (hc_create g mk deg p)))
       \<and> bt_keys (hot (run m cs (hc_create g mk deg p))) \<subseteq>
            bt_keys (hot (snd (exec m c (run m cs (hc_create g mk deg p)))))
       \<and> bt_count_keys (hot (run m cs (hc_create g mk deg p))) \<le>
            bt_count_keys (hot (snd (exec m c (run m cs (hc_create g mk deg p)))))"
proof -
  let ?s = "run m cs (hc_create g mk deg p)"
  let ?cap = "max_hot_fraction p * real (size_t_of (mk + 1))"
  let ?P = "\<lambda>h. max_key h = mk \<and> max_hot_fraction (params h) = max_hot_fraction p \<and>
      real (bt_count_keys (hot h)) < ?cap + 1"
  have "0 \<le> ?cap" using assms(1) by simp
  then have "?P (hc_create g mk deg p)"
    by (simp add: hc_create_def bt_create_def bt_count_keys_def)
  moreover have "?P (snd (exec m c h))" if "?P h" for c h
    using that exec_hot_count [OF assms(2), of h c] assms(3)
    by (simp add: exec_capacity_fields)
  ultimately have P: "?P ?s" by (rule run_invariant)
  then have f: "max_hot_fraction (params ?s) = max_hot_fraction p" "max_key ?s = mk"
    and 1: "real (bt_count_keys (hot ?s)) < ?cap + 1"
    by simp_all
  have 2: "?cap \<in> \<int> \<longrightarrow> real (bt_count_keys (hot ?s)) \<le> ?cap"
    using 1 below_next_integer by blast
  have 3: "maybe_promote m ?s k r = ?s \<and> hot (snd (hc_search m ?s k r)) = hot ?s"
    if "?cap \<le> real (bt_count_keys (hot ?s))"
  proof -
    have a: "\<not> promotes m ?s k r"
      using assms(2,3) that by (intro at_capacity_no_promotion) (simp_all add: f)
    have b: "\<not> promotes m (after_adapt m ?s) k r"
      using assms(2,3) that by (intro at_capacity_no_promotion) (simp_all add: f after_adapt_fields)
    from a b show ?thesis by (simp add: maybe_promote_eq hc_search_hot_eq)
  qed
  from 1 2 3 exec_hot_grows [of ?s m c] show ?thesis by blast
qed

theorem hot_tier_capacity_witness:
  "0 \<le> max_hot_fraction fifth_params \<and> fl_mono exact_unit
   \<and> fl exact_unit (real (size_t_of (9 + 1))) = real (size_t_of (9 + 1))
   \<and> max_hot_fraction fifth_params * real (size_t_of (9 + 1)) \<in> \<int>
   \<and> max_hot_fraction fifth_params * real (size_t_of (9 + 1)) \<le>
       real (bt_count_keys (hot (run exact_unit
         [Insert 1 7, Insert 2 8, Insert 3 9, Search 1 0, Search 2 0, Search 3 0]
         (hc_create True 9 4 fifth_params))))
   \<and> hot (run exact_unit
         [Insert 1 7, Insert 2 8, Insert 3 9, Search 1 0, Search 2 0, Search 3 0]
         (hc_create True 9 4 fifth_params)) = [(1, 7), (2, 8)]
   \<and> hot (snd (hc_search exact_unit (run exact_unit
         [Insert 1 7, Insert 2 8, Insert 3 9, Search 1 0, Search 2 0, Search 3 0]
         (hc_create True 9 4 fifth_params)) 3 0)) = [(1, 7), (2, 8)]"
proof -
  have a: "0 \<le> max_hot_fraction fifth_params" "fl_mono exact_unit"
    "fl exact_unit (real (size_t_of (9 + 1))) = real (size_t_of (9 + 1))"
    by (simp_all add: fifth_params_def rounding_ok_exact) (simp add: exact_unit_def)
  have b: "max_hot_fraction fifth_params * real (size_t_of 10) = 2"
    by (simp add: fifth_params_def size_t_of_def)
  have c: "hot (run exact_unit
         [Insert 1 7, Insert 2 8, Insert 3 9, Search 1 0, Search 2 0, Search 3 0]
         (hc_create True 9 4 fifth_params)) = [(1, 7), (2, 8)]"
    by (simp add: example_defs fifth_params_def)
  show ?thesis
    using a hot_tier_capacity [OF a, of
        "[Insert 1 7, Insert 2 8, Insert 3 9, Search 1 0, Search 2 0, Search 3 0]"
        True 4 3 0 GetStats]
    by (simp add: b c bt_count_keys_def del: run.simps exec.simps)
qed

text \<open>
  The claim as first stated fails for a fractional bound: with ten keys and
  \<open>max_hot_fraction = 1/4\<close> the bound is \<open>2.5\<close>; the third promotion finds two keys in
  the hot tier, which is below the bound, and makes them three.
\<close>

theorem hot_tier_exceeds_fractional_bound:
  "max_hot_fraction quarter_params * real (size_t_of (9 + 1)) = 5 / 2
   \<and> real (bt_count_keys (hot (run exact_unit
        [Insert 1 7, Insert 2 8, Insert 3 9, Search 1 0, Search 2 0, Search 3 0]
        (hc_create True 9 4 quarter_params)))) = 3
   \<and> max_hot_fraction quarter_params * real (size_t_of (9 + 1)) <
       real (bt_count_keys (hot (run exact_unit
        [Insert 1 7, Insert 2 8, Insert 3 9, Search 1 0, Search 2 0, Search 3 0]
        (hc_create True 9 4 quarter_params))))"
  by (simp add: example_defs quarter_params_def)

section \<open>The deduplicated range scan\<close>

lemma hc_range_cb_cold_eq: "hc_range_cb_cold = hc_range_cb_hot"
  by (intro ext) (simp add: hc_range_cb_cold_def hc_range_cb_hot_def)

lemma nat_eq_nonneg: "0 \<le> a \<Longrightarrow> 0 \<le> b \<Longrightarrow> nat a = nat b \<longleftrightarrow> a = b"
  by auto

lemma ctx_ok_cb:
  assumes "ctx_ok mk ctx"
  shows "\<exists>ctx'. hc_range_cb_hot k v ctx = Inr ctx' \<and> ctx_ok mk ctx' \<and>
           fst ` set (user_calls ctx') =
             fst ` set (user_calls ctx) \<union> (if 0 \<le> k \<and> k \<le> mk then {k} else {})"
proof (cases "0 \<le> k \<and> k \<le> mk")
  case False
  with assms show ?thesis
    by (auto simp: ctx_ok_def hc_range_cb_hot_def)
next
  case dom: True
  from assms have mk: "max_key (idx ctx) = mk"
    and len: "nat k < length (seen ctx)"
    and dis: "distinct (map fst (user_calls ctx))"
    and ks: "fst ` set (user_calls ctx) = {k. 0 \<le> k \<and> k \<le> mk \<and> seen ctx ! nat k \<noteq> 0}"
    using dom by (auto simp: ctx_ok_def)
  show ?thesis
  proof (cases "seen ctx ! nat k = 0")
    case False
    with dom have "k \<in> fst ` set (user_calls ctx)" by (simp add: ks)
    moreover have "hc_range_cb_hot k v ctx = Inr ctx"
      using False dom mk len by (simp add: hc_range_cb_hot_def)
    ultimately show ?thesis using assms dom by auto
  next
    case True
    let ?c = "ctx\<lparr>seen := (seen ctx)[nat k := 1], user_calls := user_calls ctx @ [(k, v)]\<rparr>"
    have e: "hc_range_cb_hot k v ctx = Inr ?c"
      using True dom mk len by (simp add: hc_range_cb_hot_def)
    from True have notin: "k \<notin> fst ` set (user_calls ctx)" by (simp add: ks)
    have marks: "{k'. 0 \<le> k' \<and> k' \<le> mk \<and> (seen ctx)[nat k := 1] ! nat k' \<noteq> 0} =
        insert k {k'. 0 \<le> k' \<and> k' \<le> mk \<and> seen ctx ! nat k' \<noteq> 0}"
      using dom len by (auto simp: nth_list_update nat_eq_nonneg)
    have "ctx_ok mk ?c"
      unfolding ctx_ok_def using mk len dis notin dom assms
      by (simp add: marks ks ctx_ok_def)
    moreover have "fst ` set (user_calls ?c) = fst ` set (user_calls ctx) \<union> {k}"
      by simp
    ultimately show ?thesis using dom e by simp
  qed
qed

lemma ctx_ok_scan:
  "ctx_ok mk ctx \<Longrightarrow>
   \<exists>ctx'. bt_scan hc_range_cb_hot xs ctx = Inr ctx' \<and> ctx_ok mk ctx' \<and>
     fst ` set (user_calls ctx') =
       fst ` set (user_calls ctx) \<union> {k \<in> fst ` set xs. 0 \<le> k \<and> k \<le> mk}"
proof (induction xs arbitrary: ctx)
  case Nil
  then show ?case by simp
next
  case (Cons x xs)
  obtain k v where x: "x = (k, v)" by (cases x)
  from ctx_ok_cb [OF Cons.prems, of k v]
  obtain c1 where c1: "hc_range_cb_hot k v ctx = Inr c1" and ok: "ctx_ok mk c1"
    and ks: "fst ` set (user_calls c1) =
      fst ` set (user_calls ctx) \<union> (if 0 \<le> k \<and> k \<le> mk then {k} else {})"
    by blast
  from Cons.IH [OF ok]
  obtain c2 where c2: "bt_scan hc_range_cb_hot xs c1 = Inr c2" and ok2: "ctx_ok mk c2"
    and ks2: "fst ` set (user_calls c2) =
      fst ` set (user_calls c1) \<union> {k \<in> fst ` set xs. 0 \<le> k \<and> k \<le> mk}"
    by blast
  have "bt_scan hc_range_cb_hot (x # xs) ctx = Inr c2"
    by (simp add: x c1 c2)
  moreover have "fst ` set (user_calls c2) =
      fst ` set (user_calls ctx) \<union> {k \<in> fst ` set (x # xs). 0 \<le> k \<and> k \<le> mk}"
    unfolding ks2 ks by (auto simp: x)
  ultimately show ?case using ok2 by blast
qed

lemma fst_set_filter_range:
  "fst ` set (filter (\<lambda>(k, v). lo \<le> k \<and> k \<le> hi) t) = {k \<in> bt_keys t. lo \<le> k \<and> k \<le> hi}"
  by (force simp: bt_keys_def)

lemma size_t_of_small: "0 \<le> n \<Longrightarrow> n < 2 ^ 64 \<Longrightarrow> int (size_t_of n) = n"
  by (simp add: size_t_of_def)

lemma marks_allocated:
  assumes "0 \<le> mk" and "mk < 2 ^ 61 - 1"
  shows "(calloc True (size_t_of (mk + 1)) 8 :: int list) = replicate (nat (mk + 1)) 0"
proof -
  from assms have n: "size_t_of (mk + 1) = nat (mk + 1)"
    by (simp add: size_t_of_def)
  from assms have "nat (mk + 1) < 2 ^ 61" by (simp add: nat_less_iff)
  then have "nat (mk + 1) * 8 < (2::nat) ^ 64" by simp
  then show ?thesis by (simp add: calloc_def n)
qed

text \<open>
  When the marks are allocated (the library grants them and \<^verbatim>\<open>max_key + 1\<close> cells of
  eight bytes fit \<^verbatim>\<open>size_t\<close>), the scan does not fault and hands over each key of either
  tier that lies in \<open>[lo, hi]\<close> and in the domain, once.
\<close>

lemma hc_range_search_calls:
  assumes "max_key h < 2 ^ 61 - 1"
  shows "\<exists>calls. fst (hc_range_search m h lo hi True) = Inr calls \<and>
           distinct (map fst calls) \<and>
           fst ` set calls =
             {k \<in> bt_keys (hot h) \<union> bt_keys (cold h).
                lo \<le> k \<and> k \<le> hi \<and> 0 \<le> k \<and> k \<le> max_key h}"
proof -
  let ?ctx = "\<lparr>user_calls = [], seen = calloc True (size_t_of (max_key h + 1)) 8, idx = h\<rparr>"
  have ok: "ctx_ok (max_key h) ?ctx"
  proof (cases "max_key h < 0")
    case True
    then show ?thesis by (auto simp: ctx_ok_def)
  next
    case False
    with assms have "(calloc True (size_t_of (max_key h + 1)) 8 :: int list) =
        replicate (nat (max_key h + 1)) 0"
      by (intro marks_allocated) simp_all
    with False show ?thesis by (auto simp: ctx_ok_def)
  qed
  let ?H = "filter (\<lambda>(k, v). lo \<le> k \<and> k \<le> hi) (hot h)"
  let ?C = "filter (\<lambda>(k, v). lo \<le> k \<and> k \<le> hi) (cold h)"
  from ctx_ok_scan [OF ok, of ?H]
  obtain c1 where s1: "bt_scan hc_range_cb_hot ?H ?ctx = Inr c1"
    and ok1: "ctx_ok (max_key h) c1"
    and k1: "fst ` set (user_calls c1) = {k \<in> fst ` set ?H. 0 \<le> k \<and> k \<le> max_key h}"
    by auto
  from ctx_ok_scan [OF ok1, of ?C]
  obtain c2 where s2: "bt_scan hc_range_cb_hot ?C c1 = Inr c2"
    and ok2: "ctx_ok (max_key h) c2"
    and k2: "fst ` set (user_calls c2) =
      fst ` set (user_calls c1) \<union> {k \<in> fst ` set ?C. 0 \<le> k \<and> k \<le> max_key h}"
    by auto
  have e: "fst (hc_range_search m h lo hi True) = Inr (user_calls c2)"
    by (simp add: hc_range_search_def bt_range_search_def Let_def hc_range_cb_cold_eq s1 s2)
  from ok2 have "distinct (map fst (user_calls c2))" by (simp add: ctx_ok_def)
  moreover have "fst ` set (user_calls c2) =
      {k \<in> bt_keys (hot h) \<union> bt_keys (cold h). lo \<le> k \<and> k \<le> hi \<and> 0 \<le> k \<and> k \<le> max_key h}"
    unfolding k2 k1 fst_set_filter_range by blast
  ultimately show ?thesis using e by blast
qed

lemma distinct_count_list:
  "distinct xs \<Longrightarrow> count_list xs x = (if x \<in> set xs then 1 else 0)"
  by (induction xs) auto

text \<open>
  So in a reachable state, where the keys of the hot tier are keys of the cold tier, a scan
  with allocated marks hands over exactly the keys of the cold tier in range, each once.
\<close>

lemma range_search_each_cold_key_once:
  assumes "mk < 2 ^ 61 - 1"
  shows "\<exists>calls. fst (hc_range_search m (run m cs (hc_create g mk deg p)) lo hi True) = Inr calls
       \<and> distinct (map fst calls)
       \<and> set (map fst calls) =
           {k \<in> bt_keys (cold (run m cs (hc_create g mk deg p))).
              lo \<le> k \<and> k \<le> hi \<and> 0 \<le> k \<and> k \<le> mk}
       \<and> (\<forall>k \<in> bt_keys (cold (run m cs (hc_create g mk deg p))).
            lo \<le> k \<and> k \<le> hi \<and> 0 \<le> k \<and> k \<le> mk \<longrightarrow> count_list (map fst calls) k = 1)"
proof -
  let ?s = "run m cs (hc_create g mk deg p)"
  have inv: "hc_inv mk p ?s" by (rule hc_inv_reachable)
  then have mk: "max_key ?s = mk" and sub: "bt_keys (hot ?s) \<subseteq> bt_keys (cold ?s)"
    by (simp_all add: hc_inv_def)
  from assms mk have "max_key ?s < 2 ^ 61 - 1" by simp
  from hc_range_search_calls [OF this, of m lo hi]
  obtain calls where c: "fst (hc_range_search m ?s lo hi True) = Inr calls"
    and d: "distinct (map fst calls)"
    and k: "set (map fst calls) = {k \<in> bt_keys (hot ?s) \<union> bt_keys (cold ?s).
        lo \<le> k \<and> k \<le> hi \<and> 0 \<le> k \<and> k \<le> mk}"
    by (auto simp: mk)
  from k sub have k': "set (map fst calls) =
      {k \<in> bt_keys (cold ?s). lo \<le> k \<and> k \<le> hi \<and> 0 \<le> k \<and> k \<le> mk}"
    by blast
  have "count_list (map fst calls) x = 1" if "x \<in> set (map fst calls)" for x
    using that d by (simp only: distinct_count_list if_True)
  with c d k' show ?thesis by blast
qed


section \<open>The decaying hit score\<close>

lemma hc_search_hit:
  assumes "0 \<le> k" and "k \<le> max_key h" and "nat k < length (hit_score h)"
    and "fst (bt_search m (cold h) k) \<noteq> NULL"
  shows "hit_score (snd (hc_search m h k r)) ! nat k = new_score m h k"
    and "\<exists>v. v \<noteq> NULL \<and> fst (hc_search m h k r) = Inr v"
  using assms
  unfolding hc_search_def after_adapt_def [symmetric] Let_def case_prod_beta new_score_def
  by (simp_all add: after_adapt_fields maybe_promote_fields)

lemma score_after_shift:
  "score_after m a n (dadd m (dmul m a s) 1) = dadd m (dmul m a (score_after m a n s)) 1"
  by (induction n) simp_all

lemma hits_score:
  assumes "0 \<le> k" and "k \<le> max_key h" and "nat k < length (hit_score h)"
    and "fst (bt_search m (cold h) k) \<noteq> NULL"
  shows "hit_score (run m (map (Search k) rs) h) ! nat k =
           score_after m (decay_alpha (params h)) (length rs) (hit_score h ! nat k)"
  using assms
proof (induction rs arbitrary: h)
  case Nil
  then show ?case by simp
next
  case (Cons r rs)
  let ?h = "snd (hc_search m h k r)"
  let ?a = "decay_alpha (params h)"
  from hc_search_hit [OF Cons.prems, of r]
  have s: "hit_score ?h ! nat k = dadd m (dmul m ?a (hit_score h ! nat k)) 1"
    and ok: "fst (exec m (Search k r) h) = None"
    by (auto simp: new_score_def case_prod_beta)
  have pre: "0 \<le> k" "k \<le> max_key ?h" "nat k < length (hit_score ?h)"
    "fst (bt_search m (cold ?h) k) \<noteq> NULL"
    using Cons.prems by (simp_all add: hc_search_fields)
  have a: "decay_alpha (params ?h) = ?a"
    by (simp add: hc_search_params)
  have "run m (map (Search k) (r # rs)) h = run m (map (Search k) rs) ?h"
    using ok by (simp add: run_Cons snd_exec del: run.simps exec.simps)
  then show ?case
    using Cons.IH [OF pre] by (simp add: a s score_after_shift)
qed

lemma score_after_first:
  assumes "rounding_ok m"
  shows "score_after m a (Suc 0) 0 = 1"
  using assms by (simp add: rounding_ok_def dadd_def dmul_def)

lemma score_step_mono:
  assumes "rounding_ok m" and "0 \<le> a" and "s \<le> t"
  shows "dadd m (dmul m a s) 1 \<le> dadd m (dmul m a t) 1"
proof -
  from assms(1) have mono: "\<And>x y. x \<le> y \<Longrightarrow> fl m x \<le> fl m y"
    by (simp add: rounding_ok_def fl_mono_def)
  from assms(2,3) have "a * s \<le> a * t" by (rule mult_left_mono [OF _ _, rotated]) 
  then have "fl m (a * s) \<le> fl m (a * t)" by (rule mono)
  then have "fl m (a * s) + 1 \<le> fl m (a * t) + 1" by simp
  then show ?thesis unfolding dadd_def dmul_def by (rule mono)
qed

lemma score_after_nonneg:
  assumes "rounding_ok m" and "0 \<le> a"
  shows "0 \<le> score_after m a n 0"
proof (induction n)
  case 0
  then show ?case by simp
next
  case (Suc n)
  from assms(1) have mono: "\<And>x y. x \<le> y \<Longrightarrow> fl m x \<le> fl m y"
    and z: "fl m 0 = 0" and o: "fl m 1 = 1"
    by (simp_all add: rounding_ok_def fl_mono_def)
  from Suc have "0 \<le> a * score_after m a n 0" using assms(2) by simp
  then have "fl m 0 \<le> fl m (a * score_after m a n 0)" by (rule mono)
  then have "1 \<le> fl m (a * score_after m a n 0) + 1" by (simp add: z)
  then have "fl m 1 \<le> fl m (fl m (a * score_after m a n 0) + 1)" by (rule mono)
  then show ?case by (simp add: dadd_def dmul_def o)
qed

lemma score_after_incr:
  assumes "rounding_ok m" and "0 \<le> a"
  shows "score_after m a n 0 \<le> score_after m a (Suc n) 0"
proof (induction n)
  case 0
  show ?case using score_after_first [OF assms(1), of a] by simp
next
  case (Suc n)
  from score_step_mono [OF assms Suc] show ?case by simp
qed

lemma score_after_bounded:
  assumes "rounding_ok m" and "0 \<le> a" and "0 \<le> B" and "dadd m (dmul m a B) 1 \<le> B"
  shows "score_after m a n 0 \<le> B"
proof (induction n)
  case 0
  show ?case using assms(3) by simp
next
  case (Suc n)
  from score_step_mono [OF assms(1,2) Suc] assms(4) show ?case by simp
qed

lemma score_after_exact:
  assumes "no_rounding m a n"
  shows "score_after m a n 0 = (\<Sum>i<n. a ^ i)"
  using assms
proof (induction n)
  case 0
  then show ?case by simp
next
  case (Suc n)
  from Suc.prems have "no_rounding m a n" by (simp add: no_rounding_def)
  with Suc.IH have e: "score_after m a n 0 = (\<Sum>i<n. a ^ i)" by simp
  from Suc.prems have r: "fl m (a * (\<Sum>i<n. a ^ i)) = a * (\<Sum>i<n. a ^ i)"
    "fl m (a * (\<Sum>i<n. a ^ i) + 1) = a * (\<Sum>i<n. a ^ i) + 1"
    by (simp_all add: no_rounding_def)
  have "(\<Sum>i<Suc n. a ^ i) = a * (\<Sum>i<n. a ^ i) + 1"
    by (simp add: sum.lessThan_Suc_shift sum_distrib_left del: sum.lessThan_Suc)
  then show ?case by (simp add: e r dadd_def dmul_def)
qed

lemma geometric_closed:
  fixes a :: real
  assumes "a < 1"
  shows "(\<Sum>i<n. a ^ i) = (1 - a ^ n) / (1 - a)"
  using assms by (simp add: sum_gp_strict)

lemma geometric_le_limit:
  fixes a :: real
  assumes "0 \<le> a" and "a < 1"
  shows "(\<Sum>i<n. a ^ i) \<le> 1 / (1 - a)"
proof -
  have "0 \<le> a ^ n" using assms(1) by simp
  then have "(1 - a ^ n) / (1 - a) \<le> 1 / (1 - a)"
    using assms(2) by (intro divide_right_mono) simp_all
  then show ?thesis by (simp only: geometric_closed [OF assms(2)])
qed

lemma geometric_below_limit:
  fixes a :: real
  assumes "0 < a" and "a < 1"
  shows "(\<Sum>i<n. a ^ i) < 1 / (1 - a)"
proof -
  have "0 < a ^ n" using assms(1) by simp
  then have "(1 - a ^ n) / (1 - a) < 1 / (1 - a)"
    using assms(2) by (intro divide_strict_right_mono) simp_all
  then show ?thesis by (simp only: geometric_closed [OF assms(2)])
qed

lemma geometric_limit:
  fixes a :: real
  assumes "0 \<le> a" and "a < 1"
  shows "(\<lambda>n. \<Sum>i<n. a ^ i) \<longlonglongrightarrow> 1 / (1 - a)"
proof -
  have "norm a < 1" using assms by simp
  then have "(\<lambda>i. a ^ i) sums (1 / (1 - a))" by (rule geometric_sums)
  then show ?thesis by (simp add: sums_def)
qed

lemma score_after_zero_decay:
  assumes "rounding_ok m" and "0 < n"
  shows "score_after m 0 n 0 = 1"
proof -
  from assms(2) obtain j where "n = Suc j" by (cases n) simp_all
  with assms(1) show ?thesis by (simp add: rounding_ok_def dadd_def dmul_def)
qed

lemma score_after_converges:
  assumes "rounding_ok m" and "0 \<le> a" and "0 \<le> B" and "dadd m (dmul m a B) 1 \<le> B"
  shows "\<exists>L. L \<le> B \<and> (\<lambda>n. score_after m a n 0) \<longlonglongrightarrow> L"
proof -
  have "incseq (\<lambda>n. score_after m a n 0)"
    by (rule incseq_SucI) (rule score_after_incr [OF assms(1,2)])
  moreover have b: "\<forall>n. score_after m a n 0 \<le> B"
    using score_after_bounded [OF assms] by simp
  ultimately obtain L where L: "(\<lambda>n. score_after m a n 0) \<longlonglongrightarrow> L"
    by (rule incseq_convergent)
  from L b have "L \<le> B" by (intro LIMSEQ_le_const2 [OF L]) simp
  with L show ?thesis by blast
qed

text \<open>
  C8, as amended. Let \<open>decay_alpha\<close> be in \<open>[0, 1)\<close> and \<open>k\<close> an in-domain key that the
  cold tier holds with a payload other than \<^verbatim>\<open>NULL\<close>, so that every lookup of \<open>k\<close> is a
  hit, its score cell existing and holding \<open>0\<close>. Each of \<open>n\<close> consecutive lookups of \<open>k\<close>
  takes the score \<open>s\<close> to \<open>decay_alpha \<times> s + 1\<close> as \<^verbatim>\<open>double\<close> arithmetic gives it, the
  product rounded and then the sum. The first hit raises the score from \<open>0\<close> to \<open>1\<close>; no
  later hit lowers it, and a hit need not raise it: for \<open>decay_alpha = 0\<close> the score is
  \<open>1\<close> after every hit. The score never exceeds a bound \<open>B \<ge> 0\<close> that one more hit would
  not pass, and then it converges to a limit that is at most \<open>B\<close>. As long as no rounding
  occurs, the score after \<open>n\<close> hits is the geometric sum
  \<open>1 + decay_alpha + \<dots> + decay_alpha^(n-1)\<close>, at most \<open>1 / (1 - decay_alpha)\<close>, and for
  \<open>decay_alpha > 0\<close> below it and raised by the next hit; where no rounding ever occurs it
  converges to \<open>1 / (1 - decay_alpha)\<close>. Of the rounding it is used that it is monotone
  and that \<open>0\<close> and \<open>1\<close> are values of the format.
\<close>

theorem hit_score_under_rounding:
  assumes "rounding_ok m"
    and "0 \<le> decay_alpha (params h)" and "decay_alpha (params h) < 1"
    and "0 \<le> k" and "k \<le> max_key h" and "nat k < length (hit_score h)"
    and "fst (bt_search m (cold h) k) \<noteq> NULL"
    and "hit_score h ! nat k = 0"
  shows "score_of m h k rs = score_after m (decay_alpha (params h)) (length rs) 0
       \<and> score_of m h k (rs @ [r]) = dadd m (dmul m (decay_alpha (params h)) (score_of m h k rs)) 1
       \<and> score_of m h k [r] = 1
       \<and> score_of m h k rs \<le> score_of m h k (rs @ [r])
       \<and> (decay_alpha (params h) = 0 \<longrightarrow> rs \<noteq> [] \<longrightarrow> score_of m h k rs = 1)
       \<and> (\<forall>B. 0 \<le> B \<and> dadd m (dmul m (decay_alpha (params h)) B) 1 \<le> B \<longrightarrow>
              score_of m h k rs \<le> B \<and>
              (\<exists>L. L \<le> B \<and> (\<lambda>n. score_of m h k (map draws [0..<n])) \<longlonglongrightarrow> L))
       \<and> (no_rounding m (decay_alpha (params h)) (length rs) \<longrightarrow>
              score_of m h k rs = (\<Sum>i<length rs. decay_alpha (params h) ^ i)
              \<and> score_of m h k rs \<le> 1 / (1 - decay_alpha (params h))
              \<and> (0 < decay_alpha (params h) \<longrightarrow>
                   score_of m h k rs < 1 / (1 - decay_alpha (params h))))
       \<and> (0 < decay_alpha (params h) \<longrightarrow>
              no_rounding m (decay_alpha (params h)) (Suc (length rs)) \<longrightarrow>
              score_of m h k rs < score_of m h k (rs @ [r]))
       \<and> ((\<forall>n. no_rounding m (decay_alpha (params h)) n) \<longrightarrow>
              (\<lambda>n. score_of m h k (map draws [0..<n]))
                \<longlonglongrightarrow> 1 / (1 - decay_alpha (params h)))"
proof -
  let ?a = "decay_alpha (params h)"
  have sc: "score_of m h k qs = score_after m ?a (length qs) 0" for qs
    unfolding score_of_def using hits_score [OF assms(4-7), of qs] by (simp add: assms(8))
  have seq: "(\<lambda>n. score_of m h k (map draws [0..<n])) = (\<lambda>n. score_after m ?a n 0)"
    by (simp add: sc)
  have 2: "score_of m h k (rs @ [r]) = dadd m (dmul m ?a (score_of m h k rs)) 1"
    by (simp add: sc)
  have 3: "score_of m h k [r] = 1"
    using score_after_first [OF assms(1), of ?a] by (simp add: sc)
  have 4: "score_of m h k rs \<le> score_of m h k (rs @ [r])"
    using score_after_incr [OF assms(1,2), of "length rs"] by (simp add: sc)
  have 5: "score_of m h k rs = 1" if "?a = 0" "rs \<noteq> []"
    using score_after_zero_decay [OF assms(1), of "length rs"] that by (simp add: sc)
  have 6: "score_of m h k rs \<le> B \<and>
      (\<exists>L. L \<le> B \<and> (\<lambda>n. score_of m h k (map draws [0..<n])) \<longlonglongrightarrow> L)"
    if "0 \<le> B \<and> dadd m (dmul m ?a B) 1 \<le> B" for B
    using that score_after_bounded [OF assms(1,2), of B "length rs"]
      score_after_converges [OF assms(1,2), of B]
    by (simp add: sc)
  have ex: "score_of m h k qs = (\<Sum>i<length qs. ?a ^ i)" if "no_rounding m ?a (length qs)" for qs
    using score_after_exact [OF that] by (simp add: sc)
  have 7: "score_of m h k rs = (\<Sum>i<length rs. ?a ^ i)
      \<and> score_of m h k rs \<le> 1 / (1 - ?a)
      \<and> (0 < ?a \<longrightarrow> score_of m h k rs < 1 / (1 - ?a))"
    if "no_rounding m ?a (length rs)"
    using ex [OF that] geometric_le_limit [OF assms(2,3), of "length rs"]
      geometric_below_limit [OF _ assms(3), of "length rs"]
    by simp
  have 8: "score_of m h k rs < score_of m h k (rs @ [r])"
    if "0 < ?a" and n: "no_rounding m ?a (Suc (length rs))"
  proof -
    from n have "no_rounding m ?a (length rs)" by (simp add: no_rounding_def)
    from ex [OF this] ex [of "rs @ [r]"] n that(1) show ?thesis by simp
  qed
  have 9: "(\<lambda>n. score_of m h k (map draws [0..<n])) \<longlonglongrightarrow> 1 / (1 - ?a)"
    if "\<forall>n. no_rounding m ?a n"
  proof -
    have "(\<lambda>n. score_after m ?a n 0) = (\<lambda>n. \<Sum>i<n. ?a ^ i)"
      using that by (simp add: score_after_exact)
    with geometric_limit [OF assms(2,3)] show ?thesis by (simp add: seq)
  qed
  from sc [of rs] 2 3 4 5 6 7 8 9 show ?thesis by blast
qed

lemma no_rounding_exact: "no_rounding exact_unit a n"
  by (simp add: no_rounding_def exact_unit_def)

theorem hit_score_under_rounding_witness:
  "rounding_ok exact_unit
   \<and> 0 \<le> decay_alpha (params (run exact_unit [Insert 4 65] (hc_create True 9 4 example_params)))
   \<and> decay_alpha (params (run exact_unit [Insert 4 65] (hc_create True 9 4 example_params))) < 1
   \<and> fst (bt_search exact_unit
        (cold (run exact_unit [Insert 4 65] (hc_create True 9 4 example_params))) 4) \<noteq> NULL
   \<and> hit_score (run exact_unit [Insert 4 65] (hc_create True 9 4 example_params)) ! nat 4 = 0
   \<and> no_rounding exact_unit (1 / 2) (Suc (length [0::nat, 0, 0]))
   \<and> score_of exact_unit (run exact_unit [Insert 4 65] (hc_create True 9 4 example_params)) 4
        [0, 0, 0] = 7 / 4
   \<and> score_of exact_unit (run exact_unit [Insert 4 65] (hc_create True 9 4 example_params)) 4
        [0, 0, 0]
       < score_of exact_unit (run exact_unit [Insert 4 65] (hc_create True 9 4 example_params)) 4
        ([0, 0, 0] @ [0])
   \<and> dadd exact_unit (dmul exact_unit (1 / 2) 2) 1 \<le> 2
   \<and> score_of exact_unit (run exact_unit [Insert 4 65] (hc_create True 9 4 example_params)) 4
        [0, 0, 0] \<le> 2
   \<and> decay_alpha (params (run exact_unit [Insert 1 7] (hc_create True 9 4 adaptive_params))) = 0
   \<and> score_of exact_unit (run exact_unit [Insert 1 7] (hc_create True 9 4 adaptive_params)) 1
        [0, 0] = 1"
proof -
  let ?h = "run exact_unit [Insert 4 65] (hc_create True 9 4 example_params)"
  let ?g = "run exact_unit [Insert 1 7] (hc_create True 9 4 adaptive_params)"
  have a: "0 \<le> decay_alpha (params ?h)" "decay_alpha (params ?h) < 1"
    "(0::int) \<le> 4" "4 \<le> max_key ?h" "nat 4 < length (hit_score ?h)"
    "fst (bt_search exact_unit (cold ?h) 4) \<noteq> NULL"
    "hit_score ?h ! nat 4 = 0"
    by (simp_all add: example_defs)
  have b: "0 \<le> decay_alpha (params ?g)" "decay_alpha (params ?g) < 1"
    "(0::int) \<le> 1" "1 \<le> max_key ?g" "nat 1 < length (hit_score ?g)"
    "fst (bt_search exact_unit (cold ?g) 1) \<noteq> NULL"
    "hit_score ?g ! nat 1 = 0"
    by (simp_all add: example_defs adaptive_params_def)
  have s: "(\<Sum>i<length [0::nat, 0, 0]. (1 / 2 :: real) ^ i) = 7 / 4"
    by (simp add: lessThan_Suc eval_nat_numeral)
  have d: "decay_alpha (params ?h) = 1 / 2" "decay_alpha (params ?g) = 0"
    by (simp_all add: example_defs adaptive_params_def)
  have e: "dadd exact_unit (dmul exact_unit (1 / 2) 2) 1 \<le> 2"
    by (simp add: dadd_def dmul_def exact_unit_def)
  have pos: "0 < decay_alpha (params ?h)" by (simp only: d zero_less_divide_1_iff zero_less_numeral)
  have e': "(0::real) \<le> 2 \<and> dadd exact_unit (dmul exact_unit (decay_alpha (params ?h)) 2) 1 \<le> 2"
    using e by (simp only: d zero_le_numeral simp_thms)
  have nr: "no_rounding exact_unit x n" for x n by (rule no_rounding_exact)
  note T = hit_score_under_rounding [OF rounding_ok_exact(1) a, of "[0, 0, 0]" 0 "\<lambda>i. 0"]
  from T nr have "score_of exact_unit ?h 4 [0, 0, 0] =
      (\<Sum>i<length [0::nat, 0, 0]. decay_alpha (params ?h) ^ i)"
    by blast
  then have 1: "score_of exact_unit ?h 4 [0, 0, 0] = 7 / 4"
    by (simp only: d s)
  from T nr pos have 2: "score_of exact_unit ?h 4 [0, 0, 0] <
      score_of exact_unit ?h 4 ([0, 0, 0] @ [0])"
    by blast
  from T e' have 3: "score_of exact_unit ?h 4 [0, 0, 0] \<le> 2"
    by blast
  note U = hit_score_under_rounding [OF rounding_ok_exact(1) b, of "[0, 0]" 0 "\<lambda>i. 0"]
  have ne: "[0::nat, 0] \<noteq> []" by simp
  from U d(2) ne have 4: "score_of exact_unit ?g 1 [0, 0] = 1"
    by blast
  show ?thesis
    by (intro conjI rounding_ok_exact(1) a(1) a(2) a(6) a(7) nr 1 2 3 e d(2) 4)
qed

text \<open>
  The claim as first stated fails for \<open>decay_alpha = 0\<close>, a value of its range: the first
  hit of key 1 makes the score \<open>1\<close> and the second hit leaves it at \<open>1\<close>, which is also
  \<open>1 / (1 - decay_alpha)\<close>, so the score neither increases nor stays below the limit.
\<close>

theorem hit_score_constant_without_decay:
  "decay_alpha adaptive_params = 0
   \<and> hit_score (run exact_unit [Insert 1 7, Search 1 0] (hc_create True 9 4 adaptive_params)) ! 1 = 1
   \<and> hit_score (run exact_unit [Insert 1 7, Search 1 0, Search 1 0]
        (hc_create True 9 4 adaptive_params)) ! 1 = 1"
  by (simp add: example_defs adaptive_params_def)

end
